theory Spec2Isabelle
  imports Complex_Main
begin

section \<open>JavaScript numbers\<close>

text \<open>
  Every quantity of the character demo is a JavaScript number: a finite value, one of
  the two infinities (the default boundary is \<open>-Infinity\<close> .. \<open>Infinity\<close>) or
  \<open>NaN\<close>.
  \<^item> \<open>NaN\<close>, \<open>NegInf\<close> and \<open>PosInf\<close> behave as IEEE 754 prescribes
    (\<open>Infinity - Infinity\<close> and \<open>0 * Infinity\<close> are \<open>NaN\<close>, every comparison with
    \<open>NaN\<close> is false, \<open>Math.max\<close> and \<open>Math.min\<close> return \<open>NaN\<close> when an argument is).
  \<^item> A finite value is a real. The result of an arithmetic operation on finite values
    is the exact real result passed through a rounding function \<open>rnd\<close>, the first
    argument of every operation that rounds. Two roundings are used below:
    \<open>exact\<close>, which rounds nothing, and \<open>binary64\<close>, the round-to-nearest of
    the double-precision numbers of the language.
  \<^item> The sign of zero is not modelled: \<open>-0\<close> and \<open>+0\<close> are the same number.

  A formula of the specification is computed as the code computes it, in the arithmetic
  at hand. A property that does not depend on the rounding is stated for every rounding;
  the others are stated for \<open>exact\<close> and for \<open>binary64\<close>. Where double precision
  only approximates what holds of the reals, the tolerance and the range of inputs
  for which it is proved are part of the statement.
\<close>

datatype jsnum = NaN | NegInf | Fin real | PosInf

fun is_fin :: "jsnum \<Rightarrow> bool" where
  "is_fin (Fin a) = True"
| "is_fin NaN = False"
| "is_fin NegInf = False"
| "is_fin PosInf = False"

text \<open>The infinity that has the sign of a nonzero real.\<close>

definition inf_of_sign :: "real \<Rightarrow> jsnum" where
  "inf_of_sign a = (if 0 < a then PosInf else NegInf)"

text \<open>Unary minus.\<close>

fun jneg :: "jsnum \<Rightarrow> jsnum" where
  "jneg NaN = NaN"
| "jneg NegInf = PosInf"
| "jneg (Fin a) = Fin (- a)"
| "jneg PosInf = NegInf"

subsection \<open>Rounding\<close>

text \<open>Exact arithmetic: the real result is the result.\<close>

definition exact :: "real \<Rightarrow> jsnum" where
  "exact r = Fin r"

text \<open>The nearest integer, a tie going to the even one.\<close>

definition round_even :: "real \<Rightarrow> int" where
  "round_even q =
     (let n = \<lfloor>q\<rfloor>; f = q - of_int n
      in if f < 1 / 2 then n else if 1 / 2 < f then n + 1 else if even n then n else n + 1)"

text \<open>
  IEEE 754 double precision, round to nearest, ties to even: a significand of 53 bits,
  exponents from \<open>-1022\<close> (below which the numbers are subnormal, with the spacing
  \<open>2 powi (-1074)\<close>) to \<open>1023\<close>, and an infinity when the rounded magnitude
  reaches \<open>2 ^ 1024\<close>.
\<close>

definition binary64 :: "real \<Rightarrow> jsnum" where
  "binary64 r =
     (if r = 0 then Fin 0
      else let e = max \<lfloor>log 2 \<bar>r\<bar>\<rfloor> (- 1022);
               u = 2 powi (e - 52);
               v = of_int (round_even (r / u)) * u
           in if 2 ^ 1024 \<le> \<bar>v\<bar> then inf_of_sign r else Fin v)"

text \<open>
  What the properties below need of a rounding: it returns a number (finite or infinite,
  never \<open>NaN\<close>), it leaves zero as it is, and the rounding of \<open>-r\<close> is minus the
  rounding of \<open>r\<close>. Both \<open>exact\<close> and \<open>binary64\<close> are such roundings.
\<close>

definition rounding_ok :: "(real \<Rightarrow> jsnum) \<Rightarrow> bool" where
  "rounding_ok rnd \<longleftrightarrow>
     rnd 0 = Fin 0 \<and> (\<forall>r. rnd r \<noteq> NaN) \<and> (\<forall>r. rnd (- r) = jneg (rnd r))"

text \<open>
  A value that the arithmetic can hold: an infinity, \<open>NaN\<close>, or a finite number that
  rounding leaves as it is (every real under \<open>exact\<close>, a double under \<open>binary64\<close>).
\<close>

fun stored :: "(real \<Rightarrow> jsnum) \<Rightarrow> jsnum \<Rightarrow> bool" where
  "stored rnd (Fin a) = (rnd a = Fin a)"
| "stored rnd NaN = True"
| "stored rnd NegInf = True"
| "stored rnd PosInf = True"

subsection \<open>Operations\<close>

text \<open>\<open>a + b\<close>.\<close>

fun jadd :: "(real \<Rightarrow> jsnum) \<Rightarrow> jsnum \<Rightarrow> jsnum \<Rightarrow> jsnum" where
  "jadd rnd (Fin a) (Fin b) = rnd (a + b)"
| "jadd rnd (Fin a) PosInf = PosInf"
| "jadd rnd (Fin a) NegInf = NegInf"
| "jadd rnd PosInf (Fin b) = PosInf"
| "jadd rnd NegInf (Fin b) = NegInf"
| "jadd rnd PosInf PosInf = PosInf"
| "jadd rnd NegInf NegInf = NegInf"
| "jadd rnd PosInf NegInf = NaN"
| "jadd rnd NegInf PosInf = NaN"
| "jadd rnd NaN b = NaN"
| "jadd rnd a NaN = NaN"

text \<open>\<open>a - b\<close>, which IEEE 754 defines as \<open>a + (-b)\<close>.\<close>

definition jsub :: "(real \<Rightarrow> jsnum) \<Rightarrow> jsnum \<Rightarrow> jsnum \<Rightarrow> jsnum" where
  "jsub rnd a b = jadd rnd a (jneg b)"

text \<open>\<open>a * b\<close>.\<close>

fun jmul :: "(real \<Rightarrow> jsnum) \<Rightarrow> jsnum \<Rightarrow> jsnum \<Rightarrow> jsnum" where
  "jmul rnd (Fin a) (Fin b) = rnd (a * b)"
| "jmul rnd (Fin a) PosInf = (if a = 0 then NaN else inf_of_sign a)"
| "jmul rnd (Fin a) NegInf = (if a = 0 then NaN else inf_of_sign (- a))"
| "jmul rnd PosInf (Fin b) = (if b = 0 then NaN else inf_of_sign b)"
| "jmul rnd NegInf (Fin b) = (if b = 0 then NaN else inf_of_sign (- b))"
| "jmul rnd PosInf PosInf = PosInf"
| "jmul rnd NegInf NegInf = PosInf"
| "jmul rnd PosInf NegInf = NegInf"
| "jmul rnd NegInf PosInf = NegInf"
| "jmul rnd NaN b = NaN"
| "jmul rnd a NaN = NaN"

text \<open>
  \<open>a / b\<close>. A finite number divided by zero is an infinity (the zero taken as \<open>+0\<close>)
  and \<open>0 / 0\<close> is \<open>NaN\<close>; the source divides by the constant 1000 and by a length
  it has tested to be positive only.
\<close>

fun jdiv :: "(real \<Rightarrow> jsnum) \<Rightarrow> jsnum \<Rightarrow> jsnum \<Rightarrow> jsnum" where
  "jdiv rnd (Fin a) (Fin b) =
     (if b = 0 then (if a = 0 then NaN else inf_of_sign a) else rnd (a / b))"
| "jdiv rnd (Fin a) PosInf = Fin 0"
| "jdiv rnd (Fin a) NegInf = Fin 0"
| "jdiv rnd PosInf (Fin b) = (if 0 \<le> b then PosInf else NegInf)"
| "jdiv rnd NegInf (Fin b) = (if 0 \<le> b then NegInf else PosInf)"
| "jdiv rnd PosInf PosInf = NaN"
| "jdiv rnd NegInf NegInf = NaN"
| "jdiv rnd PosInf NegInf = NaN"
| "jdiv rnd NegInf PosInf = NaN"
| "jdiv rnd NaN b = NaN"
| "jdiv rnd a NaN = NaN"

text \<open>\<open>Math.sqrt\<close>: \<open>NaN\<close> on a negative argument.\<close>

fun jsqrt :: "(real \<Rightarrow> jsnum) \<Rightarrow> jsnum \<Rightarrow> jsnum" where
  "jsqrt rnd (Fin a) = (if a < 0 then NaN else rnd (sqrt a))"
| "jsqrt rnd PosInf = PosInf"
| "jsqrt rnd NegInf = NaN"
| "jsqrt rnd NaN = NaN"

text \<open>\<open>a < b\<close>; \<open>a > b\<close> is \<open>jlt b a\<close>.\<close>

fun jlt :: "jsnum \<Rightarrow> jsnum \<Rightarrow> bool" where
  "jlt (Fin a) (Fin b) = (a < b)"
| "jlt (Fin a) PosInf = True"
| "jlt (Fin a) NegInf = False"
| "jlt NegInf (Fin b) = True"
| "jlt NegInf PosInf = True"
| "jlt NegInf NegInf = False"
| "jlt PosInf b = False"
| "jlt NaN b = False"
| "jlt a NaN = False"

text \<open>\<open>a <= b\<close>.\<close>

fun jle :: "jsnum \<Rightarrow> jsnum \<Rightarrow> bool" where
  "jle NaN b = False"
| "jle a NaN = False"
| "jle a b = (a = b \<or> jlt a b)"

text \<open>\<open>Math.max(a, b)\<close> and \<open>Math.min(a, b)\<close>.\<close>

fun jmax :: "jsnum \<Rightarrow> jsnum \<Rightarrow> jsnum" where
  "jmax NaN b = NaN"
| "jmax a NaN = NaN"
| "jmax a b = (if jlt a b then b else a)"

fun jmin :: "jsnum \<Rightarrow> jsnum \<Rightarrow> jsnum" where
  "jmin NaN b = NaN"
| "jmin a NaN = NaN"
| "jmin a b = (if jlt b a then b else a)"

section \<open>The Character class (src/src/Character.js)\<close>

text \<open>An object with the two fields \<open>x\<close> and \<open>y\<close>: a direction, a position, an obstacle.\<close>

record point =
  px :: jsnum
  py :: jsnum

text \<open>The boundary object.\<close>

record rect =
  minX :: jsnum
  maxX :: jsnum
  minY :: jsnum
  maxY :: jsnum

text \<open>The fields of a character; \<open>pos_x\<close> and \<open>pos_y\<close> are \<open>this.x\<close> and \<open>this.y\<close>.\<close>

record character =
  pos_x :: jsnum
  pos_y :: jsnum
  speed :: jsnum
  direction :: point
  boundary :: rect

definition unbounded :: rect where
  "unbounded = \<lparr>minX = NegInf, maxX = PosInf, minY = NegInf, maxY = PosInf\<rparr>"

text \<open>
  \<open>constructor(startX = 0, startY = 0, speed = 10, boundary)\<close>: an argument left out is
  \<open>None\<close>; the boundary left out is replaced by the unbounded rectangle.
\<close>

definition constructor ::
  "jsnum option \<Rightarrow> jsnum option \<Rightarrow> jsnum option \<Rightarrow> rect option \<Rightarrow> character" where
  "constructor startX startY speed0 boundary0 =
     \<lparr>pos_x = (case startX of None \<Rightarrow> Fin 0 | Some v \<Rightarrow> v),
      pos_y = (case startY of None \<Rightarrow> Fin 0 | Some v \<Rightarrow> v),
      speed = (case speed0 of None \<Rightarrow> Fin 10 | Some v \<Rightarrow> v),
      direction = \<lparr>px = Fin 0, py = Fin 0\<rparr>,
      boundary = (case boundary0 of None \<Rightarrow> unbounded | Some b \<Rightarrow> b)\<rparr>"

text \<open>\<open>update(deltaTime)\<close>.\<close>

definition update :: "(real \<Rightarrow> jsnum) \<Rightarrow> character \<Rightarrow> jsnum \<Rightarrow> character" where
  "update rnd c deltaTime =
     (let movementX =
            jmul rnd (jmul rnd (px (direction c)) (speed c)) (jdiv rnd deltaTime (Fin 1000));
          movementY =
            jmul rnd (jmul rnd (py (direction c)) (speed c)) (jdiv rnd deltaTime (Fin 1000));
          newX = jadd rnd (pos_x c) movementX;
          newY = jadd rnd (pos_y c) movementY;
          newX' = jmax (minX (boundary c)) (jmin (maxX (boundary c)) newX);
          newY' = jmax (minY (boundary c)) (jmin (maxY (boundary c)) newY)
      in c\<lparr>pos_x := newX', pos_y := newY'\<rparr>)"

text \<open>\<open>setDirection(x, y)\<close>.\<close>

definition setDirection ::
  "(real \<Rightarrow> jsnum) \<Rightarrow> character \<Rightarrow> jsnum \<Rightarrow> jsnum \<Rightarrow> character" where
  "setDirection rnd c dx dy =
     (let len = jsqrt rnd (jadd rnd (jmul rnd dx dx) (jmul rnd dy dy))
      in if jlt (Fin 0) len
         then c\<lparr>direction := \<lparr>px = jdiv rnd dx len, py = jdiv rnd dy len\<rparr>\<rparr>
         else c\<lparr>direction := \<lparr>px = Fin 0, py = Fin 0\<rparr>\<rparr>)"

text \<open>\<open>isCollidingWith(other, radius = 32)\<close>.\<close>

definition isCollidingWith ::
  "(real \<Rightarrow> jsnum) \<Rightarrow> character \<Rightarrow> point \<Rightarrow> jsnum option \<Rightarrow> bool" where
  "isCollidingWith rnd c other radius0 =
     (let radius = (case radius0 of None \<Rightarrow> Fin 32 | Some r \<Rightarrow> r);
          dx = jsub rnd (pos_x c) (px other);
          dy = jsub rnd (pos_y c) (py other);
          distance = jsqrt rnd (jadd rnd (jmul rnd dx dx) (jmul rnd dy dy))
      in jlt distance (jmul rnd radius (Fin 2)))"

definition getX :: "character \<Rightarrow> jsnum" where
  "getX c = pos_x c"

definition getY :: "character \<Rightarrow> jsnum" where
  "getY c = pos_y c"

definition getPosition :: "character \<Rightarrow> point" where
  "getPosition c = \<lparr>px = pos_x c, py = pos_y c\<rparr>"

definition getSpeed :: "character \<Rightarrow> jsnum" where
  "getSpeed c = speed c"

text \<open>\<open>setSpeed(newSpeed)\<close>.\<close>

definition setSpeed :: "character \<Rightarrow> jsnum \<Rightarrow> character" where
  "setSpeed c newSpeed = c\<lparr>speed := jmax (Fin 0) newSpeed\<rparr>"

text \<open>
  The driver calls \<open>update\<close> once per frame (\<open>Game.gameLoop\<close>): the character after
  the frames whose elapsed times are \<open>dts\<close>, in order.
\<close>

definition updates :: "(real \<Rightarrow> jsnum) \<Rightarrow> character \<Rightarrow> jsnum list \<Rightarrow> character" where
  "updates rnd c dts = foldl (update rnd) c dts"

section \<open>The Character class of the single-file demo (src/unnamed/part_000)\<close>

text \<open>
  The second copy of the class has the same fields and constructor. Its \<open>update()\<close>
  takes no elapsed time and moves by 10 along each axis whose direction is not zero;
  its \<open>setDirection(x, y)\<close> stores its arguments as they are.
\<close>

definition update_part_000 :: "(real \<Rightarrow> jsnum) \<Rightarrow> character \<Rightarrow> character" where
  "update_part_000 rnd c =
     (let c1 = (if jlt (px (direction c)) (Fin 0)
                then c\<lparr>pos_x := jmax (minX (boundary c)) (jsub rnd (pos_x c) (Fin 10))\<rparr>
                else c);
          c2 = (if jlt (Fin 0) (px (direction c1))
                then c1\<lparr>pos_x := jmin (maxX (boundary c1)) (jadd rnd (pos_x c1) (Fin 10))\<rparr>
                else c1);
          c3 = (if jlt (py (direction c2)) (Fin 0)
                then c2\<lparr>pos_y := jmax (minY (boundary c2)) (jsub rnd (pos_y c2) (Fin 10))\<rparr>
                else c2);
          c4 = (if jlt (Fin 0) (py (direction c3))
                then c3\<lparr>pos_y := jmin (maxY (boundary c3)) (jadd rnd (pos_y c3) (Fin 10))\<rparr>
                else c3)
      in c4)"

definition setDirection_part_000 :: "character \<Rightarrow> jsnum \<Rightarrow> jsnum \<Rightarrow> character" where
  "setDirection_part_000 c dx dy = c\<lparr>direction := \<lparr>px = dx, py = dy\<rparr>\<rparr>"

section \<open>Notions of the specification\<close>

text \<open>A position lies within a boundary, bounds included.\<close>

definition within_boundary :: "rect \<Rightarrow> point \<Rightarrow> bool" where
  "within_boundary b p \<longleftrightarrow>
     jle (minX b) (px p) \<and> jle (px p) (maxX b) \<and> jle (minY b) (py p) \<and> jle (py p) (maxY b)"

text \<open>
  The position and the bounds of a character are values that the arithmetic can hold.
\<close>

definition stored_state :: "(real \<Rightarrow> jsnum) \<Rightarrow> character \<Rightarrow> bool" where
  "stored_state rnd c \<longleftrightarrow>
     stored rnd (pos_x c) \<and> stored rnd (pos_y c) \<and>
     stored rnd (minX (boundary c)) \<and> stored rnd (maxX (boundary c)) \<and>
     stored rnd (minY (boundary c)) \<and> stored rnd (maxY (boundary c))"

text \<open>
  Each component of a vector lies between \<open>-1\<close> and 1, as the components of a unit
  vector and of the zero vector do.
\<close>

definition unit_box :: "point \<Rightarrow> bool" where
  "unit_box p \<longleftrightarrow>
     jle (Fin (- 1)) (px p) \<and> jle (px p) (Fin 1) \<and> jle (Fin (- 1)) (py p) \<and> jle (py p) (Fin 1)"

text \<open>
  The candidate position of an update, before the boundary is applied: position plus
  direction times speed times the elapsed seconds (\<open>newX\<close> and \<open>newY\<close> as first
  assigned in \<open>update\<close>).
\<close>

definition candidate :: "(real \<Rightarrow> jsnum) \<Rightarrow> character \<Rightarrow> jsnum \<Rightarrow> point" where
  "candidate rnd c deltaTime =
     \<lparr>px = jadd rnd (pos_x c)
             (jmul rnd (jmul rnd (px (direction c)) (speed c)) (jdiv rnd deltaTime (Fin 1000))),
      py = jadd rnd (pos_y c)
             (jmul rnd (jmul rnd (py (direction c)) (speed c)) (jdiv rnd deltaTime (Fin 1000)))\<rparr>"

text \<open>The position of a character clamped to its boundary, as \<open>update\<close> clamps.\<close>

definition clamped :: "rect \<Rightarrow> point \<Rightarrow> point" where
  "clamped b p =
     \<lparr>px = jmax (minX b) (jmin (maxX b) (px p)), py = jmax (minY b) (jmin (maxY b) (py p))\<rparr>"

text \<open>The magnitude of a vector, \<open>sqrt(x\<^sup>2 + y\<^sup>2)\<close>.\<close>

definition magnitude :: "(real \<Rightarrow> jsnum) \<Rightarrow> point \<Rightarrow> jsnum" where
  "magnitude rnd p = jsqrt rnd (jadd rnd (jmul rnd (px p) (px p)) (jmul rnd (py p) (py p)))"

text \<open>A number is finite and nearer than \<open>tol\<close> to the real \<open>t\<close>.\<close>

fun near :: "real \<Rightarrow> jsnum \<Rightarrow> real \<Rightarrow> bool" where
  "near tol (Fin a) t = (\<bar>a - t\<bar> < tol)"
| "near tol NaN t = False"
| "near tol NegInf t = False"
| "near tol PosInf t = False"

text \<open>
  The Euclidean distance of two points, \<open>sqrt((ax - bx)\<^sup>2 + (ay - by)\<^sup>2)\<close>, as the
  arithmetic computes it.
\<close>

definition distance :: "(real \<Rightarrow> jsnum) \<Rightarrow> point \<Rightarrow> point \<Rightarrow> jsnum" where
  "distance rnd a b = magnitude rnd \<lparr>px = jsub rnd (px a) (px b), py = jsub rnd (py a) (py b)\<rparr>"

text \<open>
  The unit roundoff of double precision: rounding a real of the normal range changes
  it by at most this fraction of itself.
\<close>

definition unit_roundoff :: real where
  "unit_roundoff = 1 / 2 ^ 53"

text \<open>
  A real of moderate size: zero, or of a magnitude from \<open>2 powi (-500)\<close> to
  \<open>2 powi 500\<close>. The squares, sums of two squares and quotients that the code forms
  of such reals neither overflow nor leave the normal range of double precision.
\<close>

definition moderate :: "real \<Rightarrow> bool" where
  "moderate v \<longleftrightarrow> v = 0 \<or> 2 powi (- 500) \<le> \<bar>v\<bar> \<and> \<bar>v\<bar> \<le> 2 powi 500"

text \<open>
  The contract of the specification, in its words: the clamp of the glossary (an
  out-of-range value is replaced by the nearest bound) and
  \<open>update(position, direction, speed, deltaTimeMs, boundary)\<close>, whose displacement is
  direction times speed times \<open>deltaTimeMs / 1000\<close> per axis, whose candidate is
  position plus displacement, and whose result is the candidate clamped per axis.
\<close>

definition spec_clamp :: "jsnum \<Rightarrow> jsnum \<Rightarrow> jsnum \<Rightarrow> jsnum" where
  "spec_clamp lo hi v = (if jlt v lo then lo else if jlt hi v then hi else v)"

definition spec_update ::
  "(real \<Rightarrow> jsnum) \<Rightarrow> point \<Rightarrow> point \<Rightarrow> jsnum \<Rightarrow> jsnum \<Rightarrow> rect \<Rightarrow> point" where
  "spec_update rnd position dir spd deltaTimeMs b =
     (let displacementX = jmul rnd (jmul rnd (px dir) spd) (jdiv rnd deltaTimeMs (Fin 1000));
          displacementY = jmul rnd (jmul rnd (py dir) spd) (jdiv rnd deltaTimeMs (Fin 1000));
          candidateX = jadd rnd (px position) displacementX;
          candidateY = jadd rnd (py position) displacementY
      in \<lparr>px = spec_clamp (minX b) (maxX b) candidateX,
          py = spec_clamp (minY b) (maxY b) candidateY\<rparr>)"


section \<open>The examples of the specification\<close>

text \<open>
  The diagonal-speed example: a character at \<open>(0, 0)\<close> with speed 10 and no boundary,
  \<open>setDirection(1, 1)\<close>, then \<open>update(1000)\<close>; and the same along one axis.
\<close>

definition diagonal_example :: "(real \<Rightarrow> jsnum) \<Rightarrow> character" where
  "diagonal_example rnd =
     update rnd
       (setDirection rnd (constructor (Some (Fin 0)) (Some (Fin 0)) (Some (Fin 10)) None)
          (Fin 1) (Fin 1))
       (Fin 1000)"

definition axial_example :: "(real \<Rightarrow> jsnum) \<Rightarrow> character" where
  "axial_example rnd =
     update rnd
       (setDirection rnd (constructor (Some (Fin 0)) (Some (Fin 0)) (Some (Fin 10)) None)
          (Fin 1) (Fin 0))
       (Fin 1000)"

text \<open>The boundary of the clamp example, 800 by 600.\<close>

definition canvas :: rect where
  "canvas = \<lparr>minX = Fin 0, maxX = Fin 800, minY = Fin 0, maxY = Fin 600\<rparr>"

text \<open>
  Characters created outside that boundary (the constructor does not clamp the start
  position): one to the left of it, standing still, and one below it, heading right.
\<close>

definition outside_left :: character where
  "outside_left = constructor (Some (Fin (- 5))) (Some (Fin 0)) (Some (Fin 10)) (Some canvas)"

definition outside_below :: "(real \<Rightarrow> jsnum) \<Rightarrow> character" where
  "outside_below rnd =
     setDirection rnd (constructor (Some (Fin 400)) (Some (Fin 700)) (Some (Fin 5)) (Some canvas))
       (Fin 1) (Fin 0)"

text \<open>
  A character at the origin with speed 10 and no boundary, told to head right by the
  \<open>setDirection(1, 0)\<close> of either copy of the class.
\<close>

definition heading_right :: "(real \<Rightarrow> jsnum) \<Rightarrow> character" where
  "heading_right rnd =
     setDirection rnd (constructor (Some (Fin 0)) (Some (Fin 0)) (Some (Fin 10)) None)
       (Fin 1) (Fin 0)"

definition heading_right_part_000 :: character where
  "heading_right_part_000 =
     setDirection_part_000 (constructor (Some (Fin 0)) (Some (Fin 0)) (Some (Fin 10)) None)
       (Fin 1) (Fin 0)"

text \<open>
  A character whose distance from the origin is just below 64: its coordinates are the
  largest double below 64 and the largest double below \<open>2 powi (-20)\<close>.
\<close>

definition grazing :: character where
  "grazing =
     constructor (Some (Fin (64 - 1 / 2 ^ 47))) (Some (Fin (1 / 2 ^ 20 - 1 / 2 ^ 73))) None None"

text \<open>A character very near the origin, at \<open>(2 powi (-600), 0)\<close>.\<close>

definition speck :: character where
  "speck = constructor (Some (Fin (1 / 2 ^ 600))) (Some (Fin 0)) None None"

text \<open>
  A very fast character at the origin, with no boundary, told in double precision to
  head along the very short vector \<open>(19 * 2 powi (-541), 0)\<close>.
\<close>

definition overflowing :: character where
  "overflowing =
     setDirection binary64
       (constructor (Some (Fin 0)) (Some (Fin 0)) (Some (Fin (7 * 2 ^ 1021))) None)
       (Fin (19 / 2 ^ 541)) (Fin 0)"

section \<open>Facts about the numbers\<close>

lemma clamp_within:
  "jle lo hi \<Longrightarrow> v \<noteq> NaN \<Longrightarrow>
     jle lo (jmax lo (jmin hi v)) \<and> jle (jmax lo (jmin hi v)) hi"
  by (cases lo; cases hi; cases v) auto

lemma clamp_inside: "jle lo v \<Longrightarrow> jle v hi \<Longrightarrow> jmax lo (jmin hi v) = v"
  by (cases lo; cases hi; cases v) auto

lemma clamp_idem: "jmax lo (jmin hi (jmax lo (jmin hi v))) = jmax lo (jmin hi v)"
  by (cases lo; cases hi; cases v) auto

lemma clamp_spec: "jle lo hi \<Longrightarrow> jmax lo (jmin hi v) = spec_clamp lo hi v"
  by (cases lo; cases hi; cases v) (auto simp: spec_clamp_def)

lemma update_clamps_candidate:
  "getPosition (update rnd c deltaTime) = clamped (boundary c) (candidate rnd c deltaTime)"
  by (simp add: update_def getPosition_def clamped_def candidate_def Let_def)

lemma jmax_NegInf: "jmax NegInf v = v"
  by (cases v) auto

lemma jmin_PosInf: "jmin PosInf v = v"
  by (cases v) auto

lemma jmin_le: "jle v hi \<Longrightarrow> jmin hi v = v"
  by (cases hi; cases v) auto

lemma jmax_le: "jle lo v \<Longrightarrow> jmax lo v = v"
  by (cases lo; cases v) auto

lemma clamped_inside: "within_boundary b p \<Longrightarrow> clamped b p = p"
  by (simp add: clamped_def within_boundary_def clamp_inside)

lemma fin_cases: "is_fin v \<Longrightarrow> \<exists>a. v = Fin a"
  by (cases v) simp_all

lemma update_meets_contract:
  assumes "jle (minX (boundary c)) (maxX (boundary c))"
    and "jle (minY (boundary c)) (maxY (boundary c))"
  shows "getPosition (update rnd c t) =
           spec_update rnd (getPosition c) (direction c) (speed c) t (boundary c)"
  using assms
  by (simp add: update_def spec_update_def getPosition_def Let_def clamp_spec)

section \<open>Facts about roundings\<close>

lemma rounding_ok_exact: "rounding_ok exact"
  by (simp add: rounding_ok_def exact_def)

lemma jmul_jneg: "jmul rnd (jneg v) (jneg v) = jmul rnd v v"
  by (cases v) simp_all

lemma jsub_swap:
  assumes "rounding_ok rnd"
  shows "jsub rnd b a = jneg (jsub rnd a b)"
proof (cases a; cases b)
  fix x y
  assume "a = Fin x" "b = Fin y"
  moreover have "rnd (- (x + - y)) = jneg (rnd (x + - y))"
    using assms by (simp only: rounding_ok_def)
  ultimately show ?thesis
    by (simp add: jsub_def)
qed (simp_all add: jsub_def)

lemma distance_sym: "rounding_ok rnd \<Longrightarrow> distance rnd a b = distance rnd b a"
  using jsub_swap [of rnd "px a" "px b"] jsub_swap [of rnd "py a" "py b"]
  by (simp add: distance_def magnitude_def jmul_jneg)

lemma isCollidingWith_distance:
  "isCollidingWith rnd c other radius \<longleftrightarrow>
     jlt (distance rnd (getPosition c) other)
       (jmul rnd (case radius of None \<Rightarrow> Fin 32 | Some r \<Rightarrow> r) (Fin 2))"
  by (simp add: isCollidingWith_def distance_def magnitude_def getPosition_def Let_def)

lemma stored_exact: "stored exact v"
  by (cases v) (simp_all add: exact_def)

lemma stored_state_exact: "stored_state exact c"
  by (simp add: stored_state_def stored_exact)

lemma seconds_exact: "is_fin t \<Longrightarrow> is_fin (jdiv exact t (Fin 1000))"
  by (cases t) (simp_all add: exact_def)

lemma scaled_speed_exact: "is_fin d \<Longrightarrow> is_fin s \<Longrightarrow> is_fin (jmul exact d s)"
  by (cases d; cases s) (simp_all add: exact_def)

lemma stored_clamp:
  "stored rnd lo \<Longrightarrow> stored rnd hi \<Longrightarrow> stored rnd v \<Longrightarrow> stored rnd (jmax lo (jmin hi v))"
  by (cases lo; cases hi; cases v) auto

lemma jadd_zero_stored: "rnd 0 = Fin 0 \<Longrightarrow> stored rnd p \<Longrightarrow> jadd rnd p (Fin 0) = p"
  by (cases p) simp_all

lemma jmul_zero_left: "rnd 0 = Fin 0 \<Longrightarrow> is_fin q \<Longrightarrow> jmul rnd (Fin 0) q = Fin 0"
  by (cases q) simp_all

lemma jmul_zero_right: "rnd 0 = Fin 0 \<Longrightarrow> is_fin q \<Longrightarrow> jmul rnd q (Fin 0) = Fin 0"
  by (cases q) simp_all

text \<open>
  The candidate coordinate is a number when the position is finite and neither direction
  times speed nor the elapsed seconds overflow.
\<close>

lemma candidate_coordinate_number:
  assumes "\<forall>r. rnd r \<noteq> NaN" and "is_fin p" and "is_fin m" and "is_fin q"
  shows "jadd rnd p (jmul rnd m q) \<noteq> NaN"
proof -
  obtain a b d where v: "p = Fin a" "m = Fin b" "q = Fin d"
    using assms(2-4) fin_cases by blast
  have n: "rnd (b * d) \<noteq> NaN" "\<And>z. rnd (a + z) \<noteq> NaN"
    using assms(1) by simp_all
  show ?thesis
    unfolding v using n by (cases "rnd (b * d)") simp_all
qed

text \<open>
  Zero displacement under a rounding: when the displacement computed by \<open>update\<close> is
  zero on both axes and the position is stored, \<open>update\<close> only clamps.
\<close>

lemma update_only_clamps:
  assumes "rnd 0 = Fin 0" and "stored rnd (pos_x c)" and "stored rnd (pos_y c)"
    and "jmul rnd (jmul rnd (px (direction c)) (speed c)) (jdiv rnd t (Fin 1000)) = Fin 0"
    and "jmul rnd (jmul rnd (py (direction c)) (speed c)) (jdiv rnd t (Fin 1000)) = Fin 0"
  shows "update rnd c t =
           c\<lparr>pos_x := px (clamped (boundary c) (getPosition c)),
             pos_y := py (clamped (boundary c) (getPosition c))\<rparr>"
  using assms by (simp add: update_def Let_def clamped_def getPosition_def jadd_zero_stored)

lemma updates_zero_direction_rounded:
  assumes "rnd 0 = Fin 0" and "stored_state rnd c"
    and "direction c = \<lparr>px = Fin 0, py = Fin 0\<rparr>" and "is_fin (speed c)"
    and "\<forall>t\<in>set dts. is_fin (jdiv rnd t (Fin 1000))" and "dts \<noteq> []"
  shows "updates rnd c dts =
           c\<lparr>pos_x := px (clamped (boundary c) (getPosition c)),
             pos_y := py (clamped (boundary c) (getPosition c))\<rparr>"
  using assms(5,6)
proof (induction dts rule: rev_induct)
  case Nil
  then show ?case by simp
next
  case (snoc t ts)
  let ?c' = "c\<lparr>pos_x := px (clamped (boundary c) (getPosition c)),
                pos_y := py (clamped (boundary c) (getPosition c))\<rparr>"
  have q: "is_fin (jdiv rnd t (Fin 1000))"
    using snoc.prems by simp
  have still: "jmul rnd (jmul rnd (Fin 0) (speed c)) (jdiv rnd t (Fin 1000)) = Fin 0"
    using assms(1,4) q by (simp add: jmul_zero_left)
  show ?case
  proof (cases "ts = []")
    case True
    have "update rnd c t = ?c'"
      using assms(1-3) still by (intro update_only_clamps) (simp_all add: stored_state_def)
    with True show ?thesis
      by (simp add: updates_def)
  next
    case False
    have ih: "updates rnd c ts = ?c'"
      using snoc False by simp
    have st: "stored rnd (pos_x ?c')" "stored rnd (pos_y ?c')"
      using assms(2) by (simp_all add: stored_state_def clamped_def getPosition_def stored_clamp)
    have "update rnd ?c' t =
        ?c'\<lparr>pos_x := px (clamped (boundary ?c') (getPosition ?c')),
            pos_y := py (clamped (boundary ?c') (getPosition ?c'))\<rparr>"
      using assms(1,3) st still by (intro update_only_clamps) simp_all
    also have "\<dots> = ?c'"
      using clamp_idem by (simp add: clamped_def getPosition_def)
    finally have "update rnd ?c' t = ?c'" .
    then show ?thesis
      using ih by (simp add: updates_def)
  qed
qed

lemma update_within_rounded:
  assumes "rounding_ok rnd" and "is_fin (pos_x c)" and "is_fin (pos_y c)"
    and "is_fin (jmul rnd (px (direction c)) (speed c))"
    and "is_fin (jmul rnd (py (direction c)) (speed c))"
    and "is_fin (jdiv rnd t (Fin 1000))"
    and "jle (minX (boundary c)) (maxX (boundary c))"
    and "jle (minY (boundary c)) (maxY (boundary c))"
  shows "within_boundary (boundary c) (getPosition (update rnd c t))"
proof -
  have r: "\<forall>r. rnd r \<noteq> NaN"
    using assms(1) by (simp add: rounding_ok_def)
  have "px (candidate rnd c t) \<noteq> NaN" "py (candidate rnd c t) \<noteq> NaN"
    using candidate_coordinate_number [OF r assms(2,4,6)]
      candidate_coordinate_number [OF r assms(3,5,6)]
    by (simp_all add: candidate_def)
  then show ?thesis
    using assms(7,8)
    by (simp add: update_clamps_candidate within_boundary_def clamped_def clamp_within)
qed

lemma update_zero_displacement:
  assumes "rounding_ok rnd" and "stored_state rnd c"
    and "is_fin (px (direction c))" and "is_fin (py (direction c))"
    and "is_fin (jmul rnd (px (direction c)) (speed c))"
    and "is_fin (jmul rnd (py (direction c)) (speed c))"
    and "is_fin (jdiv rnd t (Fin 1000))"
    and "t = Fin 0 \<or> speed c = Fin 0"
  shows "update rnd c t =
           c\<lparr>pos_x := px (clamped (boundary c) (getPosition c)),
             pos_y := py (clamped (boundary c) (getPosition c))\<rparr>"
proof -
  have z: "rnd 0 = Fin 0"
    using assms(1) by (simp add: rounding_ok_def)
  obtain dx dy where d: "px (direction c) = Fin dx" "py (direction c) = Fin dy"
    using assms(3,4) fin_cases by blast
  have "jmul rnd (jmul rnd (px (direction c)) (speed c)) (jdiv rnd t (Fin 1000)) = Fin 0 \<and>
        jmul rnd (jmul rnd (py (direction c)) (speed c)) (jdiv rnd t (Fin 1000)) = Fin 0"
    using assms(8)
  proof
    assume "t = Fin 0"
    then show ?thesis
      using z assms(5,6) by (simp add: jmul_zero_right)
  next
    assume "speed c = Fin 0"
    then show ?thesis
      using z d assms(7) by (simp add: jmul_zero_left)
  qed
  then show ?thesis
    using z assms(2) by (intro update_only_clamps) (simp_all add: stored_state_def)
qed

lemma same_position_same_character:
  assumes "getPosition (update rnd c t) = getPosition c"
  shows "update rnd c t = c"
proof -
  have "pos_x (update rnd c t) = pos_x c" and "pos_y (update rnd c t) = pos_y c"
    using assms by (simp_all add: getPosition_def)
  then show ?thesis
    by (simp add: update_def Let_def)
qed

section \<open>Facts about rounding to double precision\<close>

lemma round_even_near:
  assumes "of_int m - 1 / 2 < q" and "q < of_int m + 1 / 2"
  shows "round_even q = m"
proof -
  have "\<lfloor>q\<rfloor> = m \<or> \<lfloor>q\<rfloor> = m - 1"
    using assms by linarith
  then show ?thesis
  proof
    assume "\<lfloor>q\<rfloor> = m"
    with assms show ?thesis by (simp add: round_even_def Let_def)
  next
    assume "\<lfloor>q\<rfloor> = m - 1"
    with assms show ?thesis by (simp add: round_even_def Let_def)
  qed
qed

lemma floor_log2:
  assumes "2 powi e \<le> r" and "r < 2 powi (e + 1)"
  shows "\<lfloor>log 2 r\<rfloor> = e"
proof -
  have pos: "0 < r"
  proof -
    have "(0::real) < 2 powi e" by simp
    with assms(1) show ?thesis by linarith
  qed
  have a: "2 powr (of_int e) \<le> r"
    using assms(1) powr_real_of_int' [of 2 e] by simp
  have b: "r < 2 powr (of_int (e + 1))"
    using assms(2) powr_real_of_int' [of 2 "e + 1"] by simp
  have "of_int e \<le> log 2 r"
    using a pos by (simp add: le_log_iff)
  moreover have "log 2 r < of_int (e + 1)"
    using b pos by (simp add: log_less_iff)
  ultimately show ?thesis by linarith
qed

text \<open>
  A real \<open>r\<close> of the binade \<open>e\<close>, nearer to \<open>m * 2 powi (e - 52)\<close> than half a unit in the
  last place, rounds to it.
\<close>

lemma binary64_eval:
  assumes lo: "2 powi e \<le> \<bar>r\<bar>" and hi: "\<bar>r\<bar> < 2 powi (e + 1)"
    and e: "- 1022 \<le> e" and e': "e \<le> 1022"
    and m1: "(of_int m - 1 / 2) * 2 powi (e - 52) < r"
    and m2: "r < (of_int m + 1 / 2) * 2 powi (e - 52)"
  shows "binary64 r = Fin (of_int m * 2 powi (e - 52))"
proof -
  let ?u = "(2::real) powi (e - 52)"
  have upos: "0 < ?u" by simp
  have nz: "r \<noteq> 0"
  proof
    assume "r = 0"
    with lo have "(2::real) powi e \<le> 0" by simp
    moreover have "(0::real) < 2 powi e" by simp
    ultimately show False by linarith
  qed
  have ex: "max \<lfloor>log 2 \<bar>r\<bar>\<rfloor> (- 1022) = e"
    using floor_log2 [OF lo hi] e by simp
  have q1: "of_int m - 1 / 2 < r / ?u"
    using m1 upos by (simp add: pos_less_divide_eq)
  have q2: "r / ?u < of_int m + 1 / 2"
    using m2 upos by (simp add: pos_divide_less_eq)
  have rd: "round_even (r / ?u) = m"
    using round_even_near [OF q1 q2] .
  have top: "(2::real) powi (e + 1) \<le> 2 powi 1023"
    using e' by (intro power_int_increasing) simp_all
  have small: "?u \<le> 2 powi (e + 1)"
    by (intro power_int_increasing) simp_all
  have "\<bar>of_int m * ?u\<bar> \<le> \<bar>r\<bar> + ?u / 2"
    using m1 m2 by (simp add: algebra_simps abs_le_iff) linarith
  also have "\<dots> < 2 powi (e + 1) + 2 powi (e + 1)"
    using hi small upos by linarith
  also have "\<dots> \<le> 2 powi 1023 + 2 powi 1023"
    using top by linarith
  also have "\<dots> = 2 ^ 1024"
    by simp
  finally have fin: "\<not> 2 ^ 1024 \<le> \<bar>of_int m * ?u\<bar>"
    by linarith
  show ?thesis
    unfolding binary64_def Let_def ex rd using nz fin by simp
qed

lemma round_even_cases: "round_even q = \<lfloor>q\<rfloor> \<or> round_even q = \<lfloor>q\<rfloor> + 1 \<and> 1 / 2 \<le> q - of_int \<lfloor>q\<rfloor>"
  by (auto simp: round_even_def Let_def)

lemma round_even_error: "\<bar>of_int (round_even q) - q\<bar> \<le> 1 / 2"
proof -
  have "round_even q = \<lfloor>q\<rfloor> \<and> q - of_int \<lfloor>q\<rfloor> \<le> 1 / 2 \<or>
        round_even q = \<lfloor>q\<rfloor> + 1 \<and> 1 / 2 \<le> q - of_int \<lfloor>q\<rfloor>"
    by (auto simp: round_even_def Let_def)
  then show ?thesis
    by (elim disjE conjE) (simp; linarith)+
qed

lemma round_even_bound:
  assumes "\<bar>q\<bar> \<le> of_int N"
  shows "\<bar>round_even q\<bar> \<le> N"
proof -
  have lo: "- N \<le> \<lfloor>q\<rfloor>"
    using assms by linarith
  have hi: "\<lfloor>q\<rfloor> \<le> N"
    using assms by linarith
  have up: "\<lfloor>q\<rfloor> + 1 \<le> N" if "1 / 2 \<le> q - of_int \<lfloor>q\<rfloor>"
  proof -
    have "of_int \<lfloor>q\<rfloor> < q" using that by linarith
    also have "q \<le> of_int N" using assms by linarith
    finally have "\<lfloor>q\<rfloor> < N" by simp
    then show ?thesis by simp
  qed
  show ?thesis
    using round_even_cases [of q] lo hi up by auto
qed


lemma log2_less:
  assumes "0 < r" and "r < 2 powi k"
  shows "\<lfloor>log 2 r\<rfloor> < k"
proof -
  have "r < 2 powr (of_int k)"
    using assms(2) powr_real_of_int' [of 2 k] by simp
  then have "log 2 r < of_int k"
    using assms(1) by (simp add: log_less_iff)
  then show ?thesis by linarith
qed

lemma less_next_binade:
  assumes "0 < r"
  shows "r < 2 powi (\<lfloor>log 2 r\<rfloor> + 1)"
proof -
  have h: "log 2 r < of_int (\<lfloor>log 2 r\<rfloor> + 1)"
    by linarith
  have "r < 2 powr (of_int (\<lfloor>log 2 r\<rfloor> + 1))"
    by (rule iffD1 [OF log_less_iff [OF _ assms] h]) simp
  then show ?thesis
    using powr_real_of_int' [of 2 "\<lfloor>log 2 r\<rfloor> + 1"] by simp
qed

lemma int_below_power:
  assumes "\<bar>real_of_int k\<bar> < 2 ^ n"
  shows "\<bar>k\<bar> \<le> 2 ^ n - 1"
proof -
  have "real_of_int \<bar>k\<bar> < real_of_int (2 ^ n)"
    using assms by simp
  then have "\<bar>k\<bar> < 2 ^ n"
    by (simp only: of_int_less_iff)
  then show ?thesis by simp
qed

lemma real_of_bounded_int:
  assumes "\<bar>k\<bar> \<le> 2 ^ n - 1"
  shows "\<bar>real_of_int k\<bar> \<le> 2 ^ n - 1"
proof -
  have "real_of_int \<bar>k\<bar> \<le> real_of_int (2 ^ n - 1)"
    using assms by (simp only: of_int_le_iff)
  then show ?thesis by simp
qed

lemma scaled_error:
  fixes m r u :: real
  assumes "0 < u" and "\<bar>m - r / u\<bar> \<le> 1 / 2"
  shows "\<bar>m * u - r\<bar> \<le> u / 2"
proof -
  have "m * u - r = (m - r / u) * u"
    using assms(1) by (simp add: field_simps)
  then have "\<bar>m * u - r\<bar> = \<bar>m - r / u\<bar> * u"
    using assms(1) by (simp add: abs_mult)
  also have "\<dots> \<le> 1 / 2 * u"
    using assms by (intro mult_right_mono) simp_all
  finally show ?thesis by simp
qed

lemma floor_log2_mono:
  assumes "0 < r" and "r \<le> s"
  shows "\<lfloor>log 2 r\<rfloor> \<le> \<lfloor>log 2 s\<rfloor>"
  using assms by (intro floor_mono) simp

text \<open>Rounding a real that is no larger than a double does not overflow.\<close>

lemma binary64_no_overflow:
  assumes s: "binary64 s = Fin s" and le: "\<bar>r\<bar> \<le> \<bar>s\<bar>"
  shows "is_fin (binary64 r)"
proof (cases "r = 0")
  case True
  then show ?thesis by (simp add: binary64_def)
next
  case False
  then have rpos: "0 < \<bar>r\<bar>" and spos: "0 < \<bar>s\<bar>" and snz: "s \<noteq> 0"
    using le by auto
  let ?e = "max \<lfloor>log 2 \<bar>r\<bar>\<rfloor> (- 1022)"
  let ?u = "(2::real) powi (?e - 52)"
  let ?m = "round_even (r / ?u)"
  let ?es = "max \<lfloor>log 2 \<bar>s\<bar>\<rfloor> (- 1022)"
  let ?us = "(2::real) powi (?es - 52)"
  let ?ms = "round_even (s / ?us)"
  have upos: "0 < ?u" by simp
  have sfin: "\<not> 2 ^ 1024 \<le> \<bar>of_int ?ms * ?us\<bar>" and sval: "of_int ?ms * ?us = s"
    using s snz by (auto simp: binary64_def Let_def inf_of_sign_def split: if_splits)
  have sless: "\<bar>s\<bar> < 2 powi 1024"
    using sfin sval by simp
  have err: "\<bar>of_int ?m * ?u\<bar> \<le> \<bar>r\<bar> + ?u / 2"
  proof -
    have "\<bar>of_int ?m * ?u - r\<bar> \<le> ?u / 2"
      using upos round_even_error by (rule scaled_error)
    then show ?thesis by linarith
  qed
  have "\<bar>of_int ?m * ?u\<bar> < 2 ^ 1024"
  proof (cases "?e \<le> 1022")
    case True
    have "\<bar>r\<bar> < 2 powi (\<lfloor>log 2 \<bar>r\<bar>\<rfloor> + 1)"
      using rpos by (rule less_next_binade)
    also have "\<dots> \<le> 2 powi (?e + 1)"
      by (intro power_int_increasing) simp_all
    finally have a: "\<bar>r\<bar> < 2 powi (?e + 1)" .
    have top: "(2::real) powi (?e + 1) \<le> 2 powi 1023"
      using True by (intro power_int_increasing) simp_all
    have small: "?u \<le> 2 powi (?e + 1)"
      by (intro power_int_increasing) simp_all
    have "\<bar>of_int ?m * ?u\<bar> < 2 powi (?e + 1) + 2 powi (?e + 1)"
      using err a small upos by linarith
    also have "\<dots> \<le> 2 powi 1023 + 2 powi 1023"
      using top by linarith
    also have "\<dots> = 2 ^ 1024"
      by simp
    finally show ?thesis .
  next
    case False
    have er: "\<lfloor>log 2 \<bar>r\<bar>\<rfloor> < 1024"
      using rpos le sless by (intro log2_less) simp_all
    have es: "\<lfloor>log 2 \<bar>s\<bar>\<rfloor> < 1024"
      using spos sless by (intro log2_less) simp_all
    have mono: "\<lfloor>log 2 \<bar>r\<bar>\<rfloor> \<le> \<lfloor>log 2 \<bar>s\<bar>\<rfloor>"
      using rpos le by (rule floor_log2_mono)
    have fl: "\<lfloor>log 2 \<bar>r\<bar>\<rfloor> = 1023"
      using False er by linarith
    have fls: "\<lfloor>log 2 \<bar>s\<bar>\<rfloor> = 1023"
      using fl mono es by linarith
    have e: "?e = 1023" and e': "?es = 1023"
      by (simp_all add: fl fls)
    have u: "?u = 2 ^ 971" and us: "?us = 2 ^ 971"
      unfolding e e' by simp_all
    have "\<bar>of_int ?ms\<bar> * 2 ^ 971 < (2::real) ^ 1024"
      using sless sval us by (simp add: abs_mult)
    then have "\<bar>real_of_int ?ms\<bar> < 2 ^ 53"
      by simp
    then have ms: "\<bar>?ms\<bar> \<le> 2 ^ 53 - 1"
      by (rule int_below_power)
    have "\<bar>r / ?u\<bar> \<le> \<bar>s / ?us\<bar>"
      using le unfolding u us by (simp add: divide_right_mono)
    also have "\<bar>s / ?us\<bar> = \<bar>of_int ?ms\<bar>"
      using sval us by (simp add: field_simps)
    also have "\<dots> \<le> of_int (2 ^ 53 - 1)"
      using ms by (simp add: abs_le_iff)
    finally have "\<bar>?m\<bar> \<le> 2 ^ 53 - 1"
      by (rule round_even_bound)
    then have "\<bar>real_of_int ?m\<bar> \<le> 2 ^ 53 - 1"
      by (rule real_of_bounded_int)
    then have "\<bar>of_int ?m * ?u\<bar> \<le> (2 ^ 53 - 1) * 2 ^ 971"
      unfolding u by (simp add: abs_mult)
    also have "\<dots> < (2::real) ^ 1024"
      by simp
    finally show ?thesis .
  qed
  then show ?thesis
    using False by (simp add: binary64_def Let_def not_le)
qed

lemma binary64_seconds:
  assumes "is_fin t" and "stored binary64 t"
  shows "is_fin (jdiv binary64 t (Fin 1000))"
proof -
  obtain a where a: "t = Fin a"
    using assms(1) fin_cases by blast
  have "\<bar>a / 1000\<bar> \<le> \<bar>a\<bar>"
    by simp
  then have "is_fin (binary64 (a / 1000))"
    using assms(2) a by (intro binary64_no_overflow [of a]) simp_all
  then show ?thesis
    using a by simp
qed

lemma binary64_scaled_speed:
  assumes "jle (Fin (- 1)) d" and "jle d (Fin 1)" and "is_fin s" and "stored binary64 s"
  shows "is_fin (jmul binary64 d s)"
proof -
  obtain b where b: "s = Fin b"
    using assms(3) fin_cases by blast
  obtain a where a: "d = Fin a" and range: "\<bar>a\<bar> \<le> 1"
    using assms(1,2) by (cases d) auto
  have "\<bar>a * b\<bar> \<le> 1 * \<bar>b\<bar>"
    unfolding abs_mult using range by (intro mult_right_mono) simp_all
  then have "is_fin (binary64 (a * b))"
    using assms(4) b by (intro binary64_no_overflow [of b]) simp_all
  then show ?thesis
    using a b by simp
qed

lemma round_even_minus: "round_even (- q) = - round_even q"
proof (cases "q = of_int \<lfloor>q\<rfloor>")
  case True
  then obtain n where q: "q = of_int n" ..
  show ?thesis
    unfolding q by (simp add: round_even_def flip: of_int_minus)
next
  case False
  let ?n = "\<lfloor>q\<rfloor>"
  have f: "0 < q - of_int ?n" "q - of_int ?n < 1"
    using False by linarith+
  have fl: "\<lfloor>- q\<rfloor> = - ?n - 1"
    using f by (intro floor_unique) simp_all
  have par: "even (- ?n - 1) \<longleftrightarrow> odd ?n"
    by simp
  show ?thesis
    unfolding round_even_def Let_def fl using f par
    by (auto simp: algebra_simps)
qed

lemma binary64_minus: "binary64 (- r) = jneg (binary64 r)"
proof (cases "r = 0")
  case True
  then show ?thesis by (simp add: binary64_def)
next
  case False
  let ?u = "(2::real) powi (max \<lfloor>log 2 \<bar>r\<bar>\<rfloor> (- 1022) - 52)"
  let ?v = "of_int (round_even (r / ?u)) * ?u"
  have nz: "(r = 0) = False" "(- r = 0) = False"
    using False by simp_all
  have m: "of_int (round_even (- r / ?u)) * ?u = - ?v"
    using round_even_minus [of "r / ?u"] by simp
  have p: "binary64 r = (if 2 ^ 1024 \<le> \<bar>?v\<bar> then inf_of_sign r else Fin ?v)"
    unfolding binary64_def Let_def nz by (simp only: if_False)
  have n: "binary64 (- r) = (if 2 ^ 1024 \<le> \<bar>?v\<bar> then inf_of_sign (- r) else Fin (- ?v))"
    unfolding binary64_def Let_def nz abs_minus_cancel m by (simp only: if_False)
  have i: "inf_of_sign (- r) = jneg (inf_of_sign r)"
    using False by (simp add: inf_of_sign_def)
  show ?thesis
    unfolding p n i by (cases "2 ^ 1024 \<le> \<bar>?v\<bar>") (simp_all only: if_True if_False jneg.simps)
qed

lemma rounding_ok_binary64: "rounding_ok binary64"
  by (simp add: rounding_ok_def binary64_minus) (simp add: binary64_def inf_of_sign_def Let_def)

lemmas powi_simps = power_int_diff power_int_add power_int_minus

lemma sqrt_between:
  assumes "0 \<le> a" and "a\<^sup>2 < x" and "x < b\<^sup>2" and "0 \<le> b"
  shows "a < sqrt x \<and> sqrt x < b"
  using assms by (simp add: real_less_rsqrt real_less_lsqrt)

lemma binary64_0: "binary64 0 = Fin 0"
  by (simp add: binary64_def)

lemma binary64_1: "binary64 1 = Fin 1"
  using binary64_eval [of 0 1 "2 ^ 52"] by (simp add: powi_simps)

lemma binary64_2: "binary64 2 = Fin 2"
  using binary64_eval [of 1 2 "2 ^ 52"] by (simp add: powi_simps)

lemma binary64_10: "binary64 10 = Fin 10"
  using binary64_eval [of 3 10 "5 * 2 ^ 50"] by (simp add: powi_simps)

lemma binary64_sqrt_2: "binary64 (sqrt 2) = Fin (6369051672525773 / 2 ^ 52)"
proof -
  have s: "(6369051672525773 - 1 / 2) / 2 ^ 52 < sqrt 2 \<and>
           sqrt 2 < (6369051672525773 + 1 / 2) / 2 ^ 52"
    by (rule sqrt_between) (simp_all add: power2_eq_square)
  have r: "1 \<le> sqrt 2 \<and> sqrt 2 < 2"
    using sqrt_between [of 1 2 2] by (simp add: real_le_rsqrt)
  show ?thesis
    using binary64_eval [of 0 "sqrt 2" 6369051672525773] s r
    by (simp add: powi_simps)
qed

text \<open>\<open>1 / 1.4142135623730951\<close> is \<open>0.7071067811865475\<close>.\<close>

lemma binary64_inv_sqrt_2:
  "binary64 (1 / (6369051672525773 / 2 ^ 52)) = Fin (6369051672525772 / 2 ^ 53)"
  using binary64_eval [of "- 1" "1 / (6369051672525773 / 2 ^ 52)" 6369051672525772]
  by (simp add: powi_simps)

text \<open>\<open>0.7071067811865475 * 0.7071067811865475\<close> is \<open>0.4999999999999999\<close>.\<close>

lemma binary64_square:
  "binary64 (6369051672525772 / 2 ^ 53 * (6369051672525772 / 2 ^ 53)) =
     Fin (9007199254740990 / 2 ^ 54)"
  using binary64_eval
    [of "- 2" "6369051672525772 / 2 ^ 53 * (6369051672525772 / 2 ^ 53)" 9007199254740990]
  by (simp add: powi_simps)

text \<open>\<open>0.4999999999999999 + 0.4999999999999999\<close> is \<open>0.9999999999999998\<close>.\<close>

lemma binary64_sum:
  "binary64 (9007199254740990 / 2 ^ 54 + 9007199254740990 / 2 ^ 54) =
     Fin (9007199254740990 / 2 ^ 53)"
  using binary64_eval
    [of "- 1" "9007199254740990 / 2 ^ 54 + 9007199254740990 / 2 ^ 54" 9007199254740990]
  by (simp add: powi_simps)

text \<open>\<open>Math.sqrt(0.9999999999999998)\<close> is \<open>0.9999999999999999\<close>.\<close>

lemma binary64_sqrt_sum:
  "binary64 (sqrt (9007199254740990 / 2 ^ 53)) = Fin (9007199254740991 / 2 ^ 53)"
proof -
  have s: "(9007199254740991 - 1 / 2) / 2 ^ 53 < sqrt (9007199254740990 / 2 ^ 53) \<and>
           sqrt (9007199254740990 / 2 ^ 53) < (9007199254740991 + 1 / 2) / 2 ^ 53"
    by (rule sqrt_between) (simp_all add: power2_eq_square)
  have r: "1 / 2 < sqrt (9007199254740990 / 2 ^ 53) \<and> sqrt (9007199254740990 / 2 ^ 53) < 1"
    by (rule sqrt_between) (simp_all add: power2_eq_square)
  show ?thesis
    using binary64_eval [of "- 1" "sqrt (9007199254740990 / 2 ^ 53)" 9007199254740991] s r
    by (simp add: powi_simps)
qed

lemma setDirection_binary64_diagonal:
  "direction (setDirection binary64 c (Fin 1) (Fin 1)) =
     \<lparr>px = Fin (6369051672525772 / 2 ^ 53), py = Fin (6369051672525772 / 2 ^ 53)\<rparr>"
  using binary64_inv_sqrt_2 binary64_sqrt_2
  by (simp add: setDirection_def Let_def binary64_1 binary64_2)

text \<open>\<open>0.7071067811865475 * 10\<close> is \<open>7.071067811865475\<close>.\<close>

lemma binary64_times_10:
  "binary64 (6369051672525772 / 2 ^ 53 * 10) = Fin (7961314590657215 / 2 ^ 50)"
  using binary64_eval [of 2 "6369051672525772 / 2 ^ 53 * 10" 7961314590657215]
  by (simp add: powi_simps)

lemma binary64_moved:
  "binary64 (7961314590657215 / 2 ^ 50) = Fin (7961314590657215 / 2 ^ 50)"
  using binary64_eval [of 2 "7961314590657215 / 2 ^ 50" 7961314590657215]
  by (simp add: powi_simps)

lemma sqrt_2_bounds: "14142 / 10000 < sqrt 2 \<and> sqrt 2 < 14143 / 10000"
  by (rule sqrt_between) (simp_all add: power2_eq_square)

lemma inv_sqrt_2: "1 / sqrt 2 = sqrt 2 / 2"
  by (simp add: real_div_sqrt)

lemma ten_div_sqrt_2: "10 / sqrt 2 = 5 * sqrt 2"
proof -
  have "5 * sqrt 2 * sqrt 2 = 10" by simp
  then show ?thesis by (simp add: field_simps)
qed

lemma diagonal_example_exact:
  "direction (diagonal_example exact) = \<lparr>px = Fin (sqrt 2 / 2), py = Fin (sqrt 2 / 2)\<rparr> \<and>
   getPosition (diagonal_example exact) = \<lparr>px = Fin (5 * sqrt 2), py = Fin (5 * sqrt 2)\<rparr>"
  by (simp add: diagonal_example_def update_def setDirection_def constructor_def unbounded_def
      getPosition_def exact_def Let_def real_div_sqrt ten_div_sqrt_2)

lemma diagonal_example_binary64:
  "direction (diagonal_example binary64) =
     \<lparr>px = Fin (6369051672525772 / 2 ^ 53), py = Fin (6369051672525772 / 2 ^ 53)\<rparr> \<and>
   getPosition (diagonal_example binary64) =
     \<lparr>px = Fin (7961314590657215 / 2 ^ 50), py = Fin (7961314590657215 / 2 ^ 50)\<rparr>"
proof -
  let ?c = "setDirection binary64
              (constructor (Some (Fin 0)) (Some (Fin 0)) (Some (Fin 10)) None) (Fin 1) (Fin 1)"
  have d: "direction ?c =
      \<lparr>px = Fin (6369051672525772 / 2 ^ 53), py = Fin (6369051672525772 / 2 ^ 53)\<rparr>"
    by (rule setDirection_binary64_diagonal)
  have f: "pos_x ?c = Fin 0" "pos_y ?c = Fin 0" "speed ?c = Fin 10" "boundary ?c = unbounded"
    by (simp_all add: setDirection_def constructor_def Let_def)
  have m: "jmul binary64 (jmul binary64 (Fin (6369051672525772 / 2 ^ 53)) (Fin 10))
             (jdiv binary64 (Fin 1000) (Fin 1000)) = Fin (7961314590657215 / 2 ^ 50)"
    using binary64_times_10 binary64_moved by (simp add: binary64_1)
  have a: "jadd binary64 (Fin 0) (Fin (7961314590657215 / 2 ^ 50)) =
             Fin (7961314590657215 / 2 ^ 50)"
    using binary64_moved by simp
  have "getPosition (update binary64 ?c (Fin 1000)) =
      \<lparr>px = Fin (7961314590657215 / 2 ^ 50), py = Fin (7961314590657215 / 2 ^ 50)\<rparr>"
    unfolding update_def getPosition_def Let_def d f
    by (simp only: point.simps character.simps rect.simps unbounded_def m a)
       (simp)
  moreover have "direction (update binary64 ?c (Fin 1000)) = direction ?c"
    by (simp add: update_def Let_def)
  ultimately show ?thesis
    unfolding diagonal_example_def using d by simp
qed


lemma binary64_100: "binary64 100 = Fin 100"
  using binary64_eval [of 6 100 7036874417766400] by (simp add: powi_simps)

lemma binary64_1000: "binary64 1000 = Fin 1000"
  using binary64_eval [of 9 1000 8796093022208000] by (simp add: powi_simps)

lemma binary64_16: "binary64 16 = Fin 16"
  using binary64_eval [of 4 16 4503599627370496] by (simp add: powi_simps)

lemma binary64_600: "binary64 600 = Fin 600"
  using binary64_eval [of 9 600 5277655813324800] by (simp add: powi_simps)

lemma binary64_800: "binary64 800 = Fin 800"
  using binary64_eval [of 9 800 7036874417766400] by (simp add: powi_simps)

lemma binary64_5: "binary64 5 = Fin 5"
  using binary64_eval [of 2 5 5629499534213120] by (simp add: powi_simps)

lemma binary64_minus_5: "binary64 (- 5) = Fin (- 5)"
  using binary64_eval [of 2 "- 5" "- 5629499534213120"] by (simp add: powi_simps)

lemma binary64_400: "binary64 400 = Fin 400"
  using binary64_eval [of 8 400 7036874417766400] by (simp add: powi_simps)

lemma binary64_700: "binary64 700 = Fin 700"
  using binary64_eval [of 9 700 6157265115545600] by (simp add: powi_simps)

lemma binary64_half: "binary64 (1 / 2) = Fin (1 / 2)"
  using binary64_eval [of "- 1" "1 / 2" 4503599627370496] by (simp add: powi_simps)

lemma binary64_50: "binary64 50 = Fin 50"
  using binary64_eval [of 5 50 7036874417766400] by (simp add: powi_simps)

lemma binary64_minus_50: "binary64 (- 50) = Fin (- 50)"
  using binary64_eval [of 5 "- 50" "- 7036874417766400"] by (simp add: powi_simps)

lemma binary64_2500: "binary64 2500 = Fin 2500"
  using binary64_eval [of 11 2500 5497558138880000] by (simp add: powi_simps)

lemma binary64_70: "binary64 70 = Fin 70"
  using binary64_eval [of 6 70 4925812092436480] by (simp add: powi_simps)

lemma binary64_minus_70: "binary64 (- 70) = Fin (- 70)"
  using binary64_eval [of 6 "- 70" "- 4925812092436480"] by (simp add: powi_simps)

lemma binary64_4900: "binary64 4900 = Fin 4900"
  using binary64_eval [of 12 4900 5387606976102400] by (simp add: powi_simps)

lemma binary64_64: "binary64 64 = Fin 64"
  using binary64_eval [of 6 64 4503599627370496] by (simp add: powi_simps)

text \<open>\<open>16 / 1000\<close> is \<open>0.016\<close>.\<close>

lemma binary64_16_ms: "binary64 (16 / 1000) = Fin (4611686018427388 / 2 ^ 58)"
  using binary64_eval [of "- 6" "16 / 1000" 4611686018427388] by (simp add: powi_simps)

lemma sqrt_2500: "sqrt 2500 = 50"
  by (rule real_sqrt_unique) simp_all

lemma sqrt_4900: "sqrt 4900 = 70"
  by (rule real_sqrt_unique) simp_all


section \<open>The rounding error of double precision\<close>

lemma floor_log2_bounds:
  assumes "0 < r"
  shows "2 powi \<lfloor>log 2 r\<rfloor> \<le> r"
proof -
  have "2 powr (of_int \<lfloor>log 2 r\<rfloor>) \<le> r"
    using le_log_iff [of 2 r "of_int \<lfloor>log 2 r\<rfloor>"] assms by simp
  then show ?thesis
    using powr_real_of_int' [of 2 "\<lfloor>log 2 r\<rfloor>"] by simp
qed

lemma log2_ge:
  assumes "2 powi k \<le> r"
  shows "k \<le> \<lfloor>log 2 r\<rfloor>"
proof -
  have pos: "0 < r"
  proof -
    have "(0::real) < 2 powi k" by simp
    with assms show ?thesis by linarith
  qed
  have "2 powr (of_int k) \<le> r"
    using assms powr_real_of_int' [of 2 k] by simp
  then have "of_int k \<le> log 2 r"
    using pos by (simp add: le_log_iff)
  then show ?thesis
    by (simp add: le_floor_iff)
qed

text \<open>
  Rounding a real of the normal range to double precision changes it by at most the
  fraction \<open>2 powi (-53)\<close> of itself.
\<close>

lemma binary64_relative:
  assumes lo: "2 powi (- 1022) \<le> \<bar>r\<bar>" and hi: "\<bar>r\<bar> \<le> 2 powi 1023"
  shows "\<exists>v. binary64 r = Fin v \<and> \<bar>v - r\<bar> \<le> \<bar>r\<bar> / 2 ^ 53"
proof -
  let ?e = "\<lfloor>log 2 \<bar>r\<bar>\<rfloor>"
  let ?u = "(2::real) powi (?e - 52)"
  let ?v = "of_int (round_even (r / ?u)) * ?u"
  have rpos: "0 < \<bar>r\<bar>"
  proof -
    have "(0::real) < 2 powi (- 1022)" by simp
    with lo show ?thesis by linarith
  qed
  then have nz: "r \<noteq> 0" by simp
  have e: "- 1022 \<le> ?e"
    using lo by (rule log2_ge)
  have ex: "max ?e (- 1022) = ?e"
    using e by simp
  have upos: "0 < ?u" by simp
  have err: "\<bar>?v - r\<bar> \<le> ?u / 2"
    using upos round_even_error by (rule scaled_error)
  have "?u / 2 = 2 powi ?e / 2 ^ 53"
    by (simp add: power_int_diff)
  also have "\<dots> \<le> \<bar>r\<bar> / 2 ^ 53"
    using floor_log2_bounds [OF rpos] by (simp add: divide_right_mono)
  finally have half: "?u / 2 \<le> \<bar>r\<bar> / 2 ^ 53" .
  have rel: "\<bar>?v - r\<bar> \<le> \<bar>r\<bar> / 2 ^ 53"
    using err half by linarith
  have "\<bar>?v\<bar> \<le> \<bar>r\<bar> + \<bar>r\<bar> / 2 ^ 53"
    using rel by linarith
  also have "\<dots> \<le> 2 powi 1023 + 2 powi 1023 / 2 ^ 53"
    using hi by (intro add_mono divide_right_mono) simp_all
  also have "\<dots> < 2 ^ 1024"
    by simp
  finally have fin: "\<not> 2 ^ 1024 \<le> \<bar>?v\<bar>"
    by linarith
  have "binary64 r = Fin ?v"
    unfolding binary64_def Let_def ex using nz fin by simp
  then show ?thesis
    using rel by blast
qed

lemma unit_roundoff_range: "0 < unit_roundoff \<and> unit_roundoff < 1 / 2"
  by (simp add: unit_roundoff_def)

lemma roundoff_margins:
  "(1 - 1 / 10 ^ 15) * (1 + unit_roundoff)\<^sup>2 < 1 - unit_roundoff"
  "(1 + unit_roundoff) < (1 + 1 / 10 ^ 15) * (1 - unit_roundoff)\<^sup>2"
  "(1 - 1 / 10 ^ 15) * (1 + unit_roundoff) ^ 3 < 1 - unit_roundoff"
  "(1 + unit_roundoff) < (1 + 1 / 10 ^ 15) * (1 - unit_roundoff) ^ 3"
  by (simp_all add: unit_roundoff_def power_divide)

lemma relative_bounds:
  fixes v r u :: real
  assumes "\<bar>v - r\<bar> \<le> \<bar>r\<bar> * u"
  shows "\<bar>r\<bar> * (1 - u) \<le> \<bar>v\<bar> \<and> \<bar>v\<bar> \<le> \<bar>r\<bar> * (1 + u)"
proof -
  have "\<bar>v\<bar> \<le> \<bar>r\<bar> + \<bar>v - r\<bar>" and "\<bar>r\<bar> \<le> \<bar>v\<bar> + \<bar>v - r\<bar>"
    by linarith+
  then show ?thesis
    using assms by (simp add: algebra_simps)
qed

lemma interval_mult:
  fixes x y z :: real
  assumes "x * l \<le> y" and "y \<le> x * h" and "y * l' \<le> z" and "z \<le> y * h'"
    and "0 \<le> l'" and "0 \<le> h'"
  shows "x * (l * l') \<le> z \<and> z \<le> x * (h * h')"
proof -
  have "x * l * l' \<le> y * l'"
    using assms(1,5) by (rule mult_right_mono)
  moreover have "y * h' \<le> x * h * h'"
    using assms(2,6) by (rule mult_right_mono)
  ultimately show ?thesis
    using assms(3,4) by (simp add: mult.assoc)
qed

lemma square_between:
  fixes v A B :: real
  assumes "0 \<le> A" and "A \<le> \<bar>v\<bar>" and "\<bar>v\<bar> \<le> B"
  shows "A * A \<le> v * v \<and> v * v \<le> B * B"
proof -
  have v: "v * v = \<bar>v\<bar> * \<bar>v\<bar>"
    by simp
  have "A * A \<le> \<bar>v\<bar> * \<bar>v\<bar>"
    using assms by (intro mult_mono) simp_all
  moreover have "\<bar>v\<bar> * \<bar>v\<bar> \<le> B * B"
    using assms by (intro mult_mono) simp_all
  ultimately show ?thesis
    unfolding v by simp
qed

lemma sqrt_interval:
  fixes X s l h :: real
  assumes "0 \<le> X" and "0 \<le> l" and "0 \<le> h" and "X * l\<^sup>2 \<le> s" and "s \<le> X * h\<^sup>2"
  shows "sqrt X * l \<le> sqrt s \<and> sqrt s \<le> sqrt X * h"
proof -
  have "sqrt (X * l\<^sup>2) \<le> sqrt s"
    using assms(4) by simp
  moreover have "sqrt s \<le> sqrt (X * h\<^sup>2)"
    using assms(5) by simp
  ultimately show ?thesis
    using assms(2,3) by (simp add: real_sqrt_mult)
qed

text \<open>Rounding in the normal range, with the unit roundoff.\<close>

lemma binary64_roundoff:
  assumes "2 powi (- 1022) \<le> \<bar>r\<bar>" and "\<bar>r\<bar> \<le> 2 powi 1023"
  shows "\<exists>v. binary64 r = Fin v \<and>
           \<bar>r\<bar> * (1 - unit_roundoff) \<le> \<bar>v\<bar> \<and> \<bar>v\<bar> \<le> \<bar>r\<bar> * (1 + unit_roundoff) \<and>
           (0 \<le> r \<longrightarrow> 0 \<le> v) \<and> (r \<le> 0 \<longrightarrow> v \<le> 0)"
proof -
  obtain v where v: "binary64 r = Fin v" and e: "\<bar>v - r\<bar> \<le> \<bar>r\<bar> / 2 ^ 53"
    using binary64_relative [OF assms] by blast
  have e': "\<bar>v - r\<bar> \<le> \<bar>r\<bar> * unit_roundoff"
    using e by (simp add: unit_roundoff_def)
  have small: "\<bar>r\<bar> * unit_roundoff \<le> \<bar>r\<bar> * 1"
    using unit_roundoff_range by (intro mult_left_mono) simp_all
  have s1: "0 \<le> v" if "0 \<le> r"
    using that e' small by linarith
  have s2: "v \<le> 0" if "r \<le> 0"
    using that e' small by linarith
  show ?thesis
    using v relative_bounds [OF e'] s1 s2 by blast
qed

text \<open>
  The square of a real that is zero or of a magnitude from \<open>2 powi (-501)\<close> to
  \<open>2 powi 501\<close> is rounded with a relative error of at most the unit roundoff.
\<close>

lemma binary64_square_roundoff:
  assumes "p = 0 \<or> 2 powi (- 501) \<le> \<bar>p\<bar> \<and> \<bar>p\<bar> \<le> 2 powi 501"
  shows "\<exists>a. binary64 (p * p) = Fin a \<and>
           p * p * (1 - unit_roundoff) \<le> a \<and> a \<le> p * p * (1 + unit_roundoff) \<and>
           (p \<noteq> 0 \<longrightarrow> 2 powi (- 1002) \<le> p * p) \<and> p * p \<le> 2 powi 1002"
proof (cases "p = 0")
  case True
  then show ?thesis by (simp add: binary64_0)
next
  case False
  then have lo: "2 powi (- 501) \<le> \<bar>p\<bar>" and hi: "\<bar>p\<bar> \<le> 2 powi 501"
    using assms by simp_all
  have sq: "2 powi (- 501) * 2 powi (- 501) \<le> p * p \<and> p * p \<le> 2 powi 501 * 2 powi 501"
    using _ lo hi by (rule square_between) simp
  have c1: "(2::real) powi (- 501) * 2 powi (- 501) = 2 powi (- 1002)"
    by simp
  have c2: "(2::real) powi 501 * 2 powi 501 = 2 powi 1002"
    by simp
  have lo2: "2 powi (- 1002) \<le> p * p" and hi2: "p * p \<le> 2 powi 1002"
    using sq unfolding c1 c2 by simp_all
  have a1: "(2::real) powi (- 1022) \<le> 2 powi (- 1002)"
    by (intro power_int_increasing) simp_all
  have a2: "(2::real) powi 1002 \<le> 2 powi 1023"
    by (intro power_int_increasing) simp_all
  have pp: "\<bar>p * p\<bar> = p * p"
    by simp
  have r1: "2 powi (- 1022) \<le> \<bar>p * p\<bar>"
    unfolding pp using lo2 a1 by linarith
  have r2: "\<bar>p * p\<bar> \<le> 2 powi 1023"
    unfolding pp using hi2 a2 by linarith
  obtain a where a: "binary64 (p * p) = Fin a"
    and b: "\<bar>p * p\<bar> * (1 - unit_roundoff) \<le> \<bar>a\<bar>" "\<bar>a\<bar> \<le> \<bar>p * p\<bar> * (1 + unit_roundoff)"
    and s: "0 \<le> p * p \<longrightarrow> 0 \<le> a"
    using binary64_roundoff [OF r1 r2] by blast
  have "0 \<le> a"
    using s by simp
  then have "\<bar>a\<bar> = a"
    by simp
  then show ?thesis
    using a b lo2 hi2 unfolding pp by auto
qed

text \<open>
  The magnitude \<open>sqrt(p * p + q * q)\<close> as double precision computes it: three
  roundings, of the squares, of their sum and of the square root, which together
  change the real magnitude by a factor between \<open>(1 - u)\<^sup>2\<close> and \<open>(1 + u)\<^sup>2\<close>,
  \<open>u\<close> being the unit roundoff.
\<close>

lemma binary64_magnitude:
  assumes p: "p = 0 \<or> 2 powi (- 501) \<le> \<bar>p\<bar> \<and> \<bar>p\<bar> \<le> 2 powi 501"
    and q: "q = 0 \<or> 2 powi (- 501) \<le> \<bar>q\<bar> \<and> \<bar>q\<bar> \<le> 2 powi 501"
  shows "\<exists>m. magnitude binary64 \<lparr>px = Fin p, py = Fin q\<rparr> = Fin m \<and>
           sqrt (p * p + q * q) * (1 - unit_roundoff)\<^sup>2 \<le> m \<and>
           m \<le> sqrt (p * p + q * q) * (1 + unit_roundoff)\<^sup>2"
proof (cases "p = 0 \<and> q = 0")
  case True
  then show ?thesis
    by (simp add: magnitude_def binary64_0)
next
  case False
  let ?N = "p * p + q * q"
  let ?l = "1 - unit_roundoff"
  let ?h = "1 + unit_roundoff"
  have l: "1 / 2 \<le> ?l" "0 \<le> ?l" and h: "?h \<le> 2" "0 \<le> ?h"
    using unit_roundoff_range by simp_all
  obtain a where a: "binary64 (p * p) = Fin a"
    and a1: "p * p * ?l \<le> a" and a2: "a \<le> p * p * ?h"
    and a3: "p \<noteq> 0 \<longrightarrow> 2 powi (- 1002) \<le> p * p" and a4: "p * p \<le> 2 powi 1002"
    using binary64_square_roundoff [OF p] by blast
  obtain b where b: "binary64 (q * q) = Fin b"
    and b1: "q * q * ?l \<le> b" and b2: "b \<le> q * q * ?h"
    and b3: "q \<noteq> 0 \<longrightarrow> 2 powi (- 1002) \<le> q * q" and b4: "q * q \<le> 2 powi 1002"
    using binary64_square_roundoff [OF q] by blast
  have ab1: "?N * ?l \<le> a + b" and ab2: "a + b \<le> ?N * ?h"
    using a1 a2 b1 b2 by (simp_all add: distrib_right)
  have nn: "0 \<le> p * p" "0 \<le> q * q"
    by simp_all
  have Nlo: "2 powi (- 1002) \<le> ?N"
    using False a3 b3 nn by auto
  have Nhi: "?N \<le> 2 powi 1003"
  proof -
    have "?N \<le> 2 powi 1002 + 2 powi 1002"
      using a4 b4 by linarith
    also have "\<dots> = 2 powi 1003"
      by simp
    finally show ?thesis .
  qed
  have Npos: "0 \<le> ?N"
    using nn by linarith
  have lo1: "2 powi (- 1002) * (1 / 2) \<le> ?N * ?l"
    using Nlo l by (intro mult_mono) simp_all
  have hi1: "?N * ?h \<le> 2 powi 1003 * 2"
    using Nhi h Npos by (intro mult_mono) simp_all
  have sum_lo: "2 powi (- 1003) \<le> a + b"
  proof -
    have "(2::real) powi (- 1003) = 2 powi (- 1002) * (1 / 2)"
      by simp
    then show ?thesis
      using lo1 ab1 by linarith
  qed
  have sum_hi: "a + b \<le> 2 powi 1004"
  proof -
    have "(2::real) powi 1004 = 2 powi 1003 * 2"
      by simp
    then show ?thesis
      using hi1 ab2 by linarith
  qed
  have sum_pos: "0 \<le> a + b"
  proof -
    have "(0::real) \<le> 2 powi (- 1003)" by simp
    with sum_lo show ?thesis by linarith
  qed
  have r1: "2 powi (- 1022) \<le> \<bar>a + b\<bar>"
  proof -
    have "(2::real) powi (- 1022) \<le> 2 powi (- 1003)"
      by (intro power_int_increasing) simp_all
    then show ?thesis
      using sum_lo by linarith
  qed
  have r2: "\<bar>a + b\<bar> \<le> 2 powi 1023"
  proof -
    have "(2::real) powi 1004 \<le> 2 powi 1023"
      by (intro power_int_increasing) simp_all
    then show ?thesis
      using sum_hi sum_pos by linarith
  qed
  obtain s where s: "binary64 (a + b) = Fin s"
    and s1: "\<bar>a + b\<bar> * ?l \<le> \<bar>s\<bar>" and s2: "\<bar>s\<bar> \<le> \<bar>a + b\<bar> * ?h"
    and s3: "0 \<le> a + b \<longrightarrow> 0 \<le> s"
    using binary64_roundoff [OF r1 r2] by blast
  have spos: "0 \<le> s"
    using s3 sum_pos by simp
  have s1': "(a + b) * ?l \<le> s" and s2': "s \<le> (a + b) * ?h"
    using s1 s2 spos sum_pos by simp_all
  have sN: "?N * (?l * ?l) \<le> s \<and> s \<le> ?N * (?h * ?h)"
    using ab1 ab2 s1' s2' l(2) h(2) by (rule interval_mult)
  have root: "sqrt ?N * ?l \<le> sqrt s \<and> sqrt s \<le> sqrt ?N * ?h"
    using Npos l(2) h(2) sN by (intro sqrt_interval) (simp_all add: power2_eq_square)
  have s_lo: "2 powi (- 1004) \<le> s"
  proof -
    have "2 powi (- 1003) * (1 / 2) \<le> (a + b) * ?l"
      using sum_lo l by (intro mult_mono) simp_all
    moreover have "(2::real) powi (- 1004) = 2 powi (- 1003) * (1 / 2)"
      by simp
    ultimately show ?thesis
      using s1' by linarith
  qed
  have s_hi: "s \<le> 2 powi 1005"
  proof -
    have "(a + b) * ?h \<le> 2 powi 1004 * 2"
      using sum_hi h sum_pos by (intro mult_mono) simp_all
    moreover have "(2::real) powi 1005 = 2 powi 1004 * 2"
      by simp
    ultimately show ?thesis
      using s2' by linarith
  qed
  have root_lo: "2 powi (- 502) \<le> sqrt s"
  proof -
    have "((2::real) powi (- 502))\<^sup>2 = 2 powi (- 1004)"
      by (simp add: power2_eq_square)
    then show ?thesis
      using s_lo by (intro real_le_rsqrt) simp
  qed
  have root_hi: "sqrt s \<le> 2 powi 503"
  proof -
    have "(2::real) powi 1005 \<le> (2 powi 503)\<^sup>2"
      by (simp add: power2_eq_square)
    then have "s \<le> (2 powi 503)\<^sup>2"
      using s_hi by linarith
    then show ?thesis
      by (intro real_le_lsqrt) simp_all
  qed
  have t1: "2 powi (- 1022) \<le> \<bar>sqrt s\<bar>"
  proof -
    have "(2::real) powi (- 1022) \<le> 2 powi (- 502)"
      by (intro power_int_increasing) simp_all
    then show ?thesis
      using root_lo by linarith
  qed
  have t2: "\<bar>sqrt s\<bar> \<le> 2 powi 1023"
  proof -
    have "(2::real) powi 503 \<le> 2 powi 1023"
      by (intro power_int_increasing) simp_all
    moreover have "0 \<le> sqrt s"
      using spos by simp
    ultimately show ?thesis
      using root_hi by linarith
  qed
  obtain m where m: "binary64 (sqrt s) = Fin m"
    and m1: "\<bar>sqrt s\<bar> * ?l \<le> \<bar>m\<bar>" and m2: "\<bar>m\<bar> \<le> \<bar>sqrt s\<bar> * ?h"
    and m3: "0 \<le> sqrt s \<longrightarrow> 0 \<le> m"
    using binary64_roundoff [OF t1 t2] by blast
  have mpos: "0 \<le> m"
    using m3 spos by simp
  have m1': "sqrt s * ?l \<le> m" and m2': "m \<le> sqrt s * ?h"
    using m1 m2 mpos spos by simp_all
  have "sqrt ?N * (?l * ?l) \<le> m \<and> m \<le> sqrt ?N * (?h * ?h)"
    using conjunct1 [OF root] conjunct2 [OF root] m1' m2' l(2) h(2) by (rule interval_mult)
  moreover have "magnitude binary64 \<lparr>px = Fin p, py = Fin q\<rparr> = Fin m"
    using a b s m spos by (simp add: magnitude_def)
  ultimately show ?thesis
    by (simp add: power2_eq_square)
qed

lemma moderate_wider:
  assumes "moderate v"
  shows "v = 0 \<or> 2 powi (- 501) \<le> \<bar>v\<bar> \<and> \<bar>v\<bar> \<le> 2 powi 501"
proof -
  have "(2::real) powi (- 501) \<le> 2 powi (- 500)" and "(2::real) powi 500 \<le> 2 powi 501"
    by (intro power_int_increasing; simp)+
  then show ?thesis
    using assms unfolding moderate_def by linarith
qed

lemma abs_le_sqrt_sum: "\<bar>a\<bar> \<le> sqrt (a * a + b * b)"
  by (rule real_le_rsqrt) (simp add: power2_eq_square)

text \<open>
  A component divided by the computed length \<open>L\<close> of a vector of moderate size stays
  in the normal range, so its rounding has a relative error of at most the unit roundoff.
\<close>

lemma setDirection_component:
  assumes a: "moderate a" and L1: "N * (1 - unit_roundoff)\<^sup>2 \<le> L"
    and L2: "L \<le> N * (1 + unit_roundoff)\<^sup>2" and N: "\<bar>a\<bar> \<le> N" "N \<le> 2 powi 501" "0 < N"
  shows "\<exists>d. binary64 (a / L) = Fin d \<and>
           \<bar>a\<bar> / L * (1 - unit_roundoff) \<le> \<bar>d\<bar> \<and> \<bar>d\<bar> \<le> \<bar>a\<bar> / L * (1 + unit_roundoff)"
proof (cases "a = 0")
  case True
  then show ?thesis by (simp add: binary64_0)
next
  case False
  let ?l = "1 - unit_roundoff"
  let ?h = "1 + unit_roundoff"
  have lo: "2 powi (- 500) \<le> \<bar>a\<bar>"
    using a False by (simp add: moderate_def)
  have l2: "1 / 4 \<le> ?l\<^sup>2"
  proof -
    have "(1 / 2) * (1 / 2) \<le> ?l * ?l"
      using unit_roundoff_range by (intro mult_mono) simp_all
    then show ?thesis by (simp add: power2_eq_square)
  qed
  have h2: "?h\<^sup>2 \<le> 4"
  proof -
    have "?h * ?h \<le> 2 * 2"
      using unit_roundoff_range by (intro mult_mono) simp_all
    then show ?thesis by (simp add: power2_eq_square)
  qed
  have Llo: "N * (1 / 4) \<le> L"
  proof -
    have "N * (1 / 4) \<le> N * ?l\<^sup>2"
      using l2 N(3) by (intro mult_left_mono) simp_all
    then show ?thesis using L1 by linarith
  qed
  have Lhi: "L \<le> 2 powi 503"
  proof -
    have "N * ?h\<^sup>2 \<le> 2 powi 501 * 4"
      using h2 N(2,3) by (intro mult_mono) simp_all
    moreover have "(2::real) powi 501 * 4 = 2 powi 503"
      by simp
    ultimately show ?thesis using L2 by linarith
  qed
  have Lpos: "0 < L"
    using Llo N(3) by linarith
  have q: "\<bar>a / L\<bar> = \<bar>a\<bar> / L"
    using Lpos by simp
  have up: "\<bar>a\<bar> / L \<le> 4"
  proof -
    have "\<bar>a\<bar> \<le> 4 * L"
      using N(1) Llo by linarith
    then show ?thesis
      using Lpos by (simp add: pos_divide_le_eq)
  qed
  have down: "2 powi (- 1003) \<le> \<bar>a\<bar> / L"
  proof -
    have "2 powi (- 1003) * L \<le> 2 powi (- 1003) * 2 powi 503"
      using Lhi by (intro mult_left_mono) simp_all
    also have "\<dots> = 2 powi (- 500)"
      by simp
    finally have "2 powi (- 1003) * L \<le> \<bar>a\<bar>"
      using lo by linarith
    then show ?thesis
      using Lpos by (simp add: pos_le_divide_eq)
  qed
  have r1: "2 powi (- 1022) \<le> \<bar>a / L\<bar>"
  proof -
    have "(2::real) powi (- 1022) \<le> 2 powi (- 1003)"
      by (intro power_int_increasing) simp_all
    then show ?thesis
      unfolding q using down by linarith
  qed
  have r2: "\<bar>a / L\<bar> \<le> 2 powi 1023"
  proof -
    have "(4::real) \<le> 2 powi 1023"
      by simp
    then show ?thesis
      unfolding q using up by linarith
  qed
  show ?thesis
    using binary64_roundoff [OF r1 r2] unfolding q by blast
qed

lemma near_one:
  fixes M R l h :: real
  assumes "R * l \<le> M" and "M \<le> R * h" and "R * l\<^sup>2 \<le> 1" and "1 \<le> R * h\<^sup>2"
    and "0 < l" and "0 < h" and "0 < R"
    and "(1 - e) * h\<^sup>2 < l" and "h < (1 + e) * l\<^sup>2"
  shows "\<bar>M - 1\<bar> < e"
proof -
  have "l * 1 \<le> l * (R * h\<^sup>2)"
    using assms(4,5) by (intro mult_left_mono) simp_all
  also have "\<dots> = R * l * h\<^sup>2"
    by simp
  also have "\<dots> \<le> M * h\<^sup>2"
    using assms(1) by (intro mult_right_mono) simp_all
  finally have "(1 - e) * h\<^sup>2 < M * h\<^sup>2"
    using assms(8) by linarith
  then have lo: "1 - e < M"
    using assms(6) by simp
  have "M * l\<^sup>2 \<le> R * h * l\<^sup>2"
    using assms(2) by (intro mult_right_mono) simp_all
  also have "\<dots> = h * (R * l\<^sup>2)"
    by simp
  also have "\<dots> \<le> h * 1"
    using assms(3,6) by (intro mult_left_mono) simp_all
  finally have "M * l\<^sup>2 < (1 + e) * l\<^sup>2"
    using assms(9) by linarith
  then have hi: "M < 1 + e"
    using assms(5) by simp
  show ?thesis
    using lo hi by (simp add: abs_less_iff)
qed

text \<open>
  In double precision \<open>setDirection\<close> stores a vector whose magnitude is within
  \<open>10\<^sup>-\<^sup>1\<^sup>5\<close> of 1, for every input of moderate size other than \<open>(0, 0)\<close>.
\<close>

lemma setDirection_binary64_near_unit:
  assumes a: "moderate a" and b: "moderate b" and nz: "\<not> (a = 0 \<and> b = 0)"
  shows "jlt (Fin 0) (magnitude binary64 \<lparr>px = Fin a, py = Fin b\<rparr>) \<and>
         near (1 / 10 ^ 15)
           (magnitude exact (direction (setDirection binary64 c (Fin a) (Fin b)))) 1"
proof -
  let ?N = "sqrt (a * a + b * b)"
  let ?l = "1 - unit_roundoff"
  let ?h = "1 + unit_roundoff"
  have l: "0 < ?l" "0 \<le> ?l" and h: "0 < ?h" "0 \<le> ?h"
    using unit_roundoff_range by simp_all
  obtain L where L: "magnitude binary64 \<lparr>px = Fin a, py = Fin b\<rparr> = Fin L"
    and L1: "?N * ?l\<^sup>2 \<le> L" and L2: "L \<le> ?N * ?h\<^sup>2"
    using binary64_magnitude [OF moderate_wider [OF a] moderate_wider [OF b]] by blast
  have sumpos: "0 < a * a + b * b"
    using nz by (simp add: sum_squares_gt_zero_iff)
  then have Npos: "0 < ?N"
    by simp
  have Na: "\<bar>a\<bar> \<le> ?N"
    by (rule abs_le_sqrt_sum)
  have Nb: "\<bar>b\<bar> \<le> ?N"
    using abs_le_sqrt_sum [of b a] by (simp add: add.commute)
  have Nhi: "?N \<le> 2 powi 501"
  proof -
    have ra: "\<bar>a\<bar> \<le> 2 powi 500" and rb: "\<bar>b\<bar> \<le> 2 powi 500"
      using a b by (auto simp: moderate_def)
    have "a * a \<le> 2 powi 500 * 2 powi 500"
      using square_between [of 0 a "2 powi 500"] ra by simp
    moreover have "b * b \<le> 2 powi 500 * 2 powi 500"
      using square_between [of 0 b "2 powi 500"] rb by simp
    moreover have "(2::real) powi 500 * 2 powi 500 + 2 powi 500 * 2 powi 500 \<le> (2 powi 501)\<^sup>2"
      by (simp add: power2_eq_square)
    ultimately have "a * a + b * b \<le> (2 powi 501)\<^sup>2"
      by linarith
    then show ?thesis
      by (intro real_le_lsqrt) simp_all
  qed
  have Lpos: "0 < L"
  proof -
    have "0 < ?N * ?l\<^sup>2"
      using Npos l by simp
    then show ?thesis using L1 by linarith
  qed
  obtain dx where dx: "binary64 (a / L) = Fin dx"
    and dx1: "\<bar>a\<bar> / L * ?l \<le> \<bar>dx\<bar>" and dx2: "\<bar>dx\<bar> \<le> \<bar>a\<bar> / L * ?h"
    using setDirection_component [OF a L1 L2 Na Nhi Npos] by blast
  obtain dy where dy: "binary64 (b / L) = Fin dy"
    and dy1: "\<bar>b\<bar> / L * ?l \<le> \<bar>dy\<bar>" and dy2: "\<bar>dy\<bar> \<le> \<bar>b\<bar> / L * ?h"
    using setDirection_component [OF b L1 L2 Nb Nhi Npos] by blast
  have dir: "direction (setDirection binary64 c (Fin a) (Fin b)) = \<lparr>px = Fin dx, py = Fin dy\<rparr>"
    using L Lpos dx dy by (simp add: setDirection_def magnitude_def Let_def)
  let ?S = "dx * dx + dy * dy"
  let ?X = "(a * a + b * b) / (L * L)"
  have nna: "0 \<le> \<bar>a\<bar> / L * ?l" and nnb: "0 \<le> \<bar>b\<bar> / L * ?l"
    using Lpos l by simp_all
  have sx: "\<bar>a\<bar> / L * ?l * (\<bar>a\<bar> / L * ?l) \<le> dx * dx \<and>
      dx * dx \<le> \<bar>a\<bar> / L * ?h * (\<bar>a\<bar> / L * ?h)"
    using nna dx1 dx2 by (rule square_between)
  have sy: "\<bar>b\<bar> / L * ?l * (\<bar>b\<bar> / L * ?l) \<le> dy * dy \<and>
      dy * dy \<le> \<bar>b\<bar> / L * ?h * (\<bar>b\<bar> / L * ?h)"
    using nnb dy1 dy2 by (rule square_between)
  have expand: "\<bar>a\<bar> / L * k * (\<bar>a\<bar> / L * k) + \<bar>b\<bar> / L * k * (\<bar>b\<bar> / L * k) = ?X * k\<^sup>2" for k
  proof -
    have w: "w * k * (w * k) = w * w * k\<^sup>2" for w :: real
      by (simp add: power2_eq_square)
    have "\<bar>a\<bar> / L * (\<bar>a\<bar> / L) = (\<bar>a\<bar> * \<bar>a\<bar>) / (L * L)"
      by (rule times_divide_times_eq)
    then have x: "\<bar>a\<bar> / L * (\<bar>a\<bar> / L) = a * a / (L * L)"
      by simp
    have "\<bar>b\<bar> / L * (\<bar>b\<bar> / L) = (\<bar>b\<bar> * \<bar>b\<bar>) / (L * L)"
      by (rule times_divide_times_eq)
    then have y: "\<bar>b\<bar> / L * (\<bar>b\<bar> / L) = b * b / (L * L)"
      by simp
    show ?thesis
      unfolding w x y by (simp only: add_divide_distrib distrib_right)
  qed
  have S1: "?X * ?l\<^sup>2 \<le> ?S" and S2: "?S \<le> ?X * ?h\<^sup>2"
    using sx sy expand [of ?l] expand [of ?h] by linarith+
  have Xpos: "0 \<le> ?X"
    using sumpos by simp
  have rootX: "sqrt ?X = ?N / L"
    using Lpos by (simp add: real_sqrt_divide)
  have M: "?N / L * ?l \<le> sqrt ?S \<and> sqrt ?S \<le> ?N / L * ?h"
    using sqrt_interval [OF Xpos l(2) h(2) S1 S2] unfolding rootX .
  have R1: "?N / L * ?l\<^sup>2 \<le> 1"
    using L1 Lpos by (simp add: pos_divide_le_eq)
  have R2: "1 \<le> ?N / L * ?h\<^sup>2"
    using L2 Lpos by (simp add: pos_le_divide_eq)
  have Rpos: "0 < ?N / L"
    using Npos Lpos by simp
  have "\<bar>sqrt ?S - 1\<bar> < 1 / 10 ^ 15"
    using conjunct1 [OF M] conjunct2 [OF M] R1 R2 l(1) h(1) Rpos
      roundoff_margins(1) roundoff_margins(2)
    by (rule near_one)
  moreover have "\<not> ?S < 0"
    by (simp add: not_less)
  ultimately have "near (1 / 10 ^ 15)
      (magnitude exact (direction (setDirection binary64 c (Fin a) (Fin b)))) 1"
    unfolding dir by (simp add: magnitude_def exact_def)
  then show ?thesis
    using L Lpos by simp
qed

lemma binary64_moderate:
  assumes "moderate d"
  shows "\<exists>p. binary64 d = Fin p \<and>
           \<bar>d\<bar> * (1 - unit_roundoff) \<le> \<bar>p\<bar> \<and> \<bar>p\<bar> \<le> \<bar>d\<bar> * (1 + unit_roundoff) \<and>
           (0 \<le> d \<longrightarrow> 0 \<le> p) \<and> (d \<le> 0 \<longrightarrow> p \<le> 0) \<and>
           (p = 0 \<or> 2 powi (- 501) \<le> \<bar>p\<bar> \<and> \<bar>p\<bar> \<le> 2 powi 501)"
proof (cases "d = 0")
  case True
  then show ?thesis by (simp add: binary64_0)
next
  case False
  let ?l = "1 - unit_roundoff"
  let ?h = "1 + unit_roundoff"
  have lo: "2 powi (- 500) \<le> \<bar>d\<bar>" and hi: "\<bar>d\<bar> \<le> 2 powi 500"
    using assms False by (simp_all add: moderate_def)
  have r1: "2 powi (- 1022) \<le> \<bar>d\<bar>"
  proof -
    have "(2::real) powi (- 1022) \<le> 2 powi (- 500)"
      by (intro power_int_increasing) simp_all
    then show ?thesis using lo by linarith
  qed
  have r2: "\<bar>d\<bar> \<le> 2 powi 1023"
  proof -
    have "(2::real) powi 500 \<le> 2 powi 1023"
      by (intro power_int_increasing) simp_all
    then show ?thesis using hi by linarith
  qed
  obtain p where p: "binary64 d = Fin p"
    and p1: "\<bar>d\<bar> * ?l \<le> \<bar>p\<bar>" and p2: "\<bar>p\<bar> \<le> \<bar>d\<bar> * ?h"
    and s: "0 \<le> d \<longrightarrow> 0 \<le> p" "d \<le> 0 \<longrightarrow> p \<le> 0"
    using binary64_roundoff [OF r1 r2] by blast
  have "2 powi (- 500) * (1 / 2) \<le> \<bar>d\<bar> * ?l"
    using lo unit_roundoff_range by (intro mult_mono) simp_all
  moreover have "(2::real) powi (- 500) * (1 / 2) = 2 powi (- 501)"
    by simp
  ultimately have w1: "2 powi (- 501) \<le> \<bar>p\<bar>"
    using p1 by linarith
  have "\<bar>d\<bar> * ?h \<le> 2 powi 500 * 2"
    using hi unit_roundoff_range by (intro mult_mono) simp_all
  moreover have "(2::real) powi 500 * 2 = 2 powi 501"
    by simp
  ultimately have w2: "\<bar>p\<bar> \<le> 2 powi 501"
    using p2 by linarith
  show ?thesis
    using p p1 p2 s w1 w2 by blast
qed

text \<open>
  The distance of two points as double precision computes it is the Euclidean distance
  up to a factor between \<open>(1 - u)\<^sup>3\<close> and \<open>(1 + u)\<^sup>3\<close>, when the coordinate
  differences are of moderate size.
\<close>

lemma binary64_distance:
  assumes "moderate (ax - ox)" and "moderate (ay - oy)"
  shows "\<exists>m. distance binary64 \<lparr>px = Fin ax, py = Fin ay\<rparr> \<lparr>px = Fin ox, py = Fin oy\<rparr> = Fin m \<and>
           sqrt ((ax - ox)\<^sup>2 + (ay - oy)\<^sup>2) * (1 - unit_roundoff) ^ 3 \<le> m \<and>
           m \<le> sqrt ((ax - ox)\<^sup>2 + (ay - oy)\<^sup>2) * (1 + unit_roundoff) ^ 3"
proof -
  let ?l = "1 - unit_roundoff"
  let ?h = "1 + unit_roundoff"
  let ?dx = "ax - ox"
  let ?dy = "ay - oy"
  let ?D2 = "?dx * ?dx + ?dy * ?dy"
  have l: "0 \<le> ?l" and h: "0 \<le> ?h"
    using unit_roundoff_range by simp_all
  obtain p where p: "binary64 ?dx = Fin p"
    and p1: "\<bar>?dx\<bar> * ?l \<le> \<bar>p\<bar>" and p2: "\<bar>p\<bar> \<le> \<bar>?dx\<bar> * ?h"
    and pr: "p = 0 \<or> 2 powi (- 501) \<le> \<bar>p\<bar> \<and> \<bar>p\<bar> \<le> 2 powi 501"
    using binary64_moderate [OF assms(1)] by blast
  obtain q where q: "binary64 ?dy = Fin q"
    and q1: "\<bar>?dy\<bar> * ?l \<le> \<bar>q\<bar>" and q2: "\<bar>q\<bar> \<le> \<bar>?dy\<bar> * ?h"
    and qr: "q = 0 \<or> 2 powi (- 501) \<le> \<bar>q\<bar> \<and> \<bar>q\<bar> \<le> 2 powi 501"
    using binary64_moderate [OF assms(2)] by blast
  obtain m where m: "magnitude binary64 \<lparr>px = Fin p, py = Fin q\<rparr> = Fin m"
    and m1: "sqrt (p * p + q * q) * ?l\<^sup>2 \<le> m" and m2: "m \<le> sqrt (p * p + q * q) * ?h\<^sup>2"
    using binary64_magnitude [OF pr qr] by blast
  have nnp: "0 \<le> \<bar>?dx\<bar> * ?l" and nnq: "0 \<le> \<bar>?dy\<bar> * ?l"
    using l by simp_all
  have sp: "\<bar>?dx\<bar> * ?l * (\<bar>?dx\<bar> * ?l) \<le> p * p \<and> p * p \<le> \<bar>?dx\<bar> * ?h * (\<bar>?dx\<bar> * ?h)"
    using nnp p1 p2 by (rule square_between)
  have sq: "\<bar>?dy\<bar> * ?l * (\<bar>?dy\<bar> * ?l) \<le> q * q \<and> q * q \<le> \<bar>?dy\<bar> * ?h * (\<bar>?dy\<bar> * ?h)"
    using nnq q1 q2 by (rule square_between)
  have expand: "\<bar>w\<bar> * k * (\<bar>w\<bar> * k) = w * w * k\<^sup>2" for w k :: real
  proof -
    have "\<bar>w\<bar> * k * (\<bar>w\<bar> * k) = \<bar>w\<bar> * \<bar>w\<bar> * k\<^sup>2"
      by (simp add: power2_eq_square)
    then show ?thesis by simp
  qed
  have S1: "?D2 * ?l\<^sup>2 \<le> p * p + q * q" and S2: "p * p + q * q \<le> ?D2 * ?h\<^sup>2"
    using sp sq unfolding expand by (simp_all add: distrib_right)
  have D2pos: "0 \<le> ?D2"
    by simp
  have root: "sqrt ?D2 * ?l \<le> sqrt (p * p + q * q) \<and> sqrt (p * p + q * q) \<le> sqrt ?D2 * ?h"
    using D2pos l h S1 S2 by (rule sqrt_interval)
  have l2: "0 \<le> ?l\<^sup>2" and h2: "0 \<le> ?h\<^sup>2"
    by simp_all
  have "sqrt ?D2 * (?l * ?l\<^sup>2) \<le> m \<and> m \<le> sqrt ?D2 * (?h * ?h\<^sup>2)"
    using conjunct1 [OF root] conjunct2 [OF root] m1 m2 l2 h2 by (rule interval_mult)
  moreover have "k * k\<^sup>2 = k ^ 3" for k :: real
    by (simp add: power2_eq_square power3_eq_cube)
  moreover have "distance binary64 \<lparr>px = Fin ax, py = Fin ay\<rparr> \<lparr>px = Fin ox, py = Fin oy\<rparr> = Fin m"
    using p q m by (simp add: distance_def jsub_def)
  ultimately show ?thesis
    by (simp add: power2_eq_square)
qed

text \<open>
  So the collision test of double precision agrees with the Euclidean one except within
  the fraction \<open>10\<^sup>-\<^sup>1\<^sup>5\<close> of the threshold.
\<close>

lemma isCollidingWith_binary64_tolerance:
  assumes dx: "moderate (ax - ox)" and dy: "moderate (ay - oy)" and r: "moderate r"
  shows "(sqrt ((ax - ox)\<^sup>2 + (ay - oy)\<^sup>2) < r * 2 * (1 - 1 / 10 ^ 15) \<longrightarrow>
            isCollidingWith binary64 (c\<lparr>pos_x := Fin ax, pos_y := Fin ay\<rparr>)
              \<lparr>px = Fin ox, py = Fin oy\<rparr> (Some (Fin r))) \<and>
         (r * 2 * (1 + 1 / 10 ^ 15) \<le> sqrt ((ax - ox)\<^sup>2 + (ay - oy)\<^sup>2) \<longrightarrow>
            \<not> isCollidingWith binary64 (c\<lparr>pos_x := Fin ax, pos_y := Fin ay\<rparr>)
              \<lparr>px = Fin ox, py = Fin oy\<rparr> (Some (Fin r)))"
proof -
  let ?l = "1 - unit_roundoff"
  let ?h = "1 + unit_roundoff"
  let ?D = "sqrt ((ax - ox)\<^sup>2 + (ay - oy)\<^sup>2)"
  let ?e = "1 / 10 ^ 15 :: real"
  have l: "0 < ?l" and h: "0 < ?h"
    using unit_roundoff_range by simp_all
  have l3: "0 \<le> ?l ^ 3" and h3: "0 < ?h ^ 3"
    using l h by simp_all
  have Dpos: "0 \<le> ?D"
    by simp
  obtain m where m: "distance binary64 \<lparr>px = Fin ax, py = Fin ay\<rparr> \<lparr>px = Fin ox, py = Fin oy\<rparr> = Fin m"
    and m1: "?D * ?l ^ 3 \<le> m" and m2: "m \<le> ?D * ?h ^ 3"
    using binary64_distance [OF dx dy] by blast
  obtain t where t: "binary64 (r * 2) = Fin t"
    and t1: "0 < r \<longrightarrow> r * 2 * ?l \<le> t \<and> t \<le> r * 2 * ?h" and t2: "r \<le> 0 \<longrightarrow> t \<le> 0"
  proof (cases "r = 0")
    case True
    then have "binary64 (r * 2) = Fin 0"
      by (simp add: binary64_0)
    then show ?thesis
      using True that by simp
  next
    case False
    then have lo: "2 powi (- 500) \<le> \<bar>r\<bar>" and hi: "\<bar>r\<bar> \<le> 2 powi 500"
      using r by (simp_all add: moderate_def)
    have a: "\<bar>r * 2\<bar> = \<bar>r\<bar> * 2"
      by simp
    have "(2::real) powi (- 1022) \<le> 2 powi (- 500)"
      by (intro power_int_increasing) simp_all
    then have r1: "2 powi (- 1022) \<le> \<bar>r * 2\<bar>"
      unfolding a using lo by linarith
    have "(2::real) powi 500 * 2 \<le> 2 powi 1023"
      by simp
    then have r2: "\<bar>r * 2\<bar> \<le> 2 powi 1023"
      unfolding a using hi by linarith
    obtain v where v: "binary64 (r * 2) = Fin v"
      and v1: "\<bar>r * 2\<bar> * ?l \<le> \<bar>v\<bar>" and v2: "\<bar>v\<bar> \<le> \<bar>r * 2\<bar> * ?h"
      and s: "0 \<le> r * 2 \<longrightarrow> 0 \<le> v" "r * 2 \<le> 0 \<longrightarrow> v \<le> 0"
      using binary64_roundoff [OF r1 r2] by blast
    have "r * 2 * ?l \<le> v \<and> v \<le> r * 2 * ?h" if "0 < r"
      using that v1 v2 s by simp
    moreover have "v \<le> 0" if "r \<le> 0"
      using that s by simp
    ultimately show ?thesis
      using v that by blast
  qed
  have test: "isCollidingWith binary64 (c\<lparr>pos_x := Fin ax, pos_y := Fin ay\<rparr>)
      \<lparr>px = Fin ox, py = Fin oy\<rparr> (Some (Fin r)) \<longleftrightarrow> m < t"
    using m t by (simp add: isCollidingWith_distance getPosition_def)
  have inside: "m < t" if less: "?D < r * 2 * (1 - ?e)"
  proof -
    have rpos: "0 < r"
    proof (rule ccontr)
      assume "\<not> 0 < r"
      then have "r * 2 * (1 - ?e) \<le> 0"
        by (intro mult_nonpos_nonneg) simp_all
      then show False
        using less Dpos by linarith
    qed
    have "?D * ?h ^ 3 < r * 2 * (1 - ?e) * ?h ^ 3"
      using less h3 by (rule mult_strict_right_mono)
    also have "\<dots> = r * 2 * ((1 - ?e) * ?h ^ 3)"
      by simp
    also have "\<dots> < r * 2 * ?l"
      using roundoff_margins(3) rpos by (intro mult_strict_left_mono) simp_all
    also have "\<dots> \<le> t"
      using t1 rpos by simp
    finally show ?thesis
      using m2 by linarith
  qed
  have outside: "\<not> m < t" if far: "r * 2 * (1 + ?e) \<le> ?D"
  proof (cases "0 < r")
    case False
    have "0 \<le> ?D * ?l ^ 3"
      using Dpos l3 by (rule mult_nonneg_nonneg)
    then show ?thesis
      using False t2 m1 by linarith
  next
    case True
    have "t \<le> r * 2 * ?h"
      using t1 True by simp
    also have "\<dots> \<le> r * 2 * ((1 + ?e) * ?l ^ 3)"
      using roundoff_margins(4) True by (intro mult_left_mono) simp_all
    also have "\<dots> = r * 2 * (1 + ?e) * ?l ^ 3"
      by simp
    also have "\<dots> \<le> ?D * ?l ^ 3"
      using far l3 by (rule mult_right_mono)
    finally show ?thesis
      using m1 by linarith
  qed
  show ?thesis
    using test inside outside by blast
qed

section \<open>Overflow, underflow and the doubles of the counterexamples\<close>

text \<open>A real of at least \<open>2 ^ 1024\<close> rounds to \<open>Infinity\<close>.\<close>

lemma binary64_overflow:
  assumes "2 powi 1024 \<le> r"
  shows "binary64 r = PosInf"
proof -
  let ?e = "\<lfloor>log 2 \<bar>r\<bar>\<rfloor>"
  let ?u = "(2::real) powi (?e - 52)"
  let ?m = "round_even (r / ?u)"
  have rpos: "0 < r"
  proof -
    have "(0::real) < 2 powi 1024" by simp
    with assms show ?thesis by linarith
  qed
  then have ar: "\<bar>r\<bar> = r" and nz: "r \<noteq> 0"
    by simp_all
  have e: "1024 \<le> ?e"
    unfolding ar using assms by (rule log2_ge)
  have ex: "max ?e (- 1022) = ?e"
    using e by simp
  have upos: "0 < ?u" by simp
  have "2 powi ?e \<le> r"
    using floor_log2_bounds [OF rpos] unfolding ar .
  then have "2 powi ?e / ?u \<le> r / ?u"
    using upos by (simp add: divide_right_mono)
  moreover have "2 powi ?e / ?u = 2 ^ 52"
    by (simp add: power_int_diff)
  ultimately have "of_int (2 ^ 52) \<le> r / ?u"
    by simp
  then have "2 ^ 52 \<le> \<lfloor>r / ?u\<rfloor>"
    by (simp only: le_floor_iff)
  then have "2 ^ 52 \<le> ?m"
    using round_even_cases [of "r / ?u"] by linarith
  then have "real_of_int (2 ^ 52) \<le> of_int ?m"
    by (simp only: of_int_le_iff)
  then have A: "real_of_int (2 ^ 52) * ?u \<le> of_int ?m * ?u"
    using upos by (intro mult_right_mono) simp_all
  have B: "real_of_int (2 ^ 52) * ?u = 2 powi ?e"
    by (simp add: power_int_diff)
  have C: "(2::real) powi 1024 \<le> 2 powi ?e"
    using e by (intro power_int_increasing) simp_all
  have D: "(2::real) ^ 1024 = 2 powi 1024"
    by simp
  have "2 ^ 1024 \<le> \<bar>of_int ?m * ?u\<bar>"
    unfolding D using A B C by linarith
  then show ?thesis
    unfolding binary64_def Let_def ex using nz rpos by (simp add: inf_of_sign_def)
qed

text \<open>
  Below the normal range the doubles are the multiples of \<open>2 powi (-1074)\<close>, and a
  real nearer to \<open>m * 2 powi (-1074)\<close> than half that spacing rounds to it.
\<close>

lemma binary64_eval_subnormal:
  assumes small: "\<bar>r\<bar> < 2 powi (- 1022)"
    and m1: "(of_int m - 1 / 2) * 2 powi (- 1074) < r"
    and m2: "r < (of_int m + 1 / 2) * 2 powi (- 1074)"
  shows "binary64 r = Fin (of_int m * 2 powi (- 1074))"
proof (cases "r = 0")
  case True
  have "- 1 / 2 < real_of_int m" and "real_of_int m < 1 / 2"
    using m1 m2 True by (simp_all add: zero_less_mult_iff mult_less_0_iff)
  then have "m = 0"
    by linarith
  then show ?thesis
    using True by (simp add: binary64_def)
next
  case False
  let ?u = "(2::real) powi (- 1074)"
  have upos: "0 < ?u" by simp
  have "\<lfloor>log 2 \<bar>r\<bar>\<rfloor> < - 1022"
    using False small by (intro log2_less) simp_all
  then have ex: "max \<lfloor>log 2 \<bar>r\<bar>\<rfloor> (- 1022) - 52 = - 1074"
    by simp
  have q1: "of_int m - 1 / 2 < r / ?u"
    using m1 upos by (simp add: pos_less_divide_eq)
  have q2: "r / ?u < of_int m + 1 / 2"
    using m2 upos by (simp add: pos_divide_less_eq)
  have rd: "round_even (r / ?u) = m"
    using round_even_near [OF q1 q2] .
  have "\<bar>of_int m * ?u\<bar> \<le> \<bar>r\<bar> + ?u / 2"
    using m1 m2 by (simp add: algebra_simps abs_le_iff) linarith
  also have "\<dots> < 2 powi (- 1022) + 2 powi (- 1074) / 2"
    using small by linarith
  also have "\<dots> \<le> 2 ^ 1024"
    by simp
  finally have fin: "\<not> 2 ^ 1024 \<le> \<bar>of_int m * ?u\<bar>"
    by linarith
  show ?thesis
    unfolding binary64_def Let_def ex rd using False fin by simp
qed

text \<open>A real below half the smallest double rounds to zero.\<close>

lemma binary64_underflow:
  assumes "\<bar>r\<bar> < 2 powi (- 1075)"
  shows "binary64 r = Fin 0"
proof -
  have a: "(2::real) powi (- 1075) = 1 / 2 * 2 powi (- 1074)"
    by simp
  have "(2::real) powi (- 1075) \<le> 2 powi (- 1022)"
    by (intro power_int_increasing) simp_all
  then have small: "\<bar>r\<bar> < 2 powi (- 1022)"
    using assms by linarith
  have "(of_int 0 - 1 / 2) * 2 powi (- 1074) < r" and "r < (of_int 0 + 1 / 2) * 2 powi (- 1074)"
    using assms unfolding a by (simp_all add: abs_less_iff)
  then have "binary64 r = Fin (of_int 0 * 2 powi (- 1074))"
    using small by (intro binary64_eval_subnormal)
  then show ?thesis by simp
qed

text \<open>The doubles of the topmost binade, from \<open>2 ^ 1023\<close> up.\<close>

lemma binary64_eval_top:
  assumes lo: "2 powi 1023 \<le> \<bar>r\<bar>" and hi: "\<bar>r\<bar> < 2 powi 1024"
    and m1: "(of_int m - 1 / 2) * 2 powi 971 < r"
    and m2: "r < (of_int m + 1 / 2) * 2 powi 971"
    and m: "\<bar>real_of_int m\<bar> < 2 ^ 53"
  shows "binary64 r = Fin (of_int m * 2 powi 971)"
proof -
  let ?u = "(2::real) powi 971"
  have upos: "0 < ?u" by simp
  have nz: "r \<noteq> 0"
  proof
    assume "r = 0"
    with lo have "(2::real) powi 1023 \<le> 0" by simp
    moreover have "(0::real) < 2 powi 1023" by simp
    ultimately show False by linarith
  qed
  have "\<lfloor>log 2 \<bar>r\<bar>\<rfloor> = 1023"
    using floor_log2 [of 1023 "\<bar>r\<bar>"] lo hi by simp
  then have ex: "max \<lfloor>log 2 \<bar>r\<bar>\<rfloor> (- 1022) - 52 = 971"
    by simp
  have q1: "of_int m - 1 / 2 < r / ?u"
    using m1 upos by (simp add: pos_less_divide_eq)
  have q2: "r / ?u < of_int m + 1 / 2"
    using m2 upos by (simp add: pos_divide_less_eq)
  have rd: "round_even (r / ?u) = m"
    using round_even_near [OF q1 q2] .
  have "\<bar>of_int m * ?u\<bar> = \<bar>real_of_int m\<bar> * ?u"
    by (simp add: abs_mult)
  also have "\<dots> < 2 ^ 53 * ?u"
    using m upos by (intro mult_strict_right_mono) simp_all
  also have "\<dots> = 2 ^ 1024"
    by simp
  finally have fin: "\<not> 2 ^ 1024 \<le> \<bar>of_int m * ?u\<bar>"
    by linarith
  show ?thesis
    unfolding binary64_def Let_def ex rd using nz fin by simp
qed

text \<open>The largest double below 64, and the largest below \<open>2 powi (-20)\<close>.\<close>

lemma binary64_below_64: "binary64 (64 - 1 / 2 ^ 47) = Fin (64 - 1 / 2 ^ 47)"
  using binary64_eval [of 5 "64 - 1 / 2 ^ 47" 9007199254740991]
  by (simp add: powi_simps)

lemma binary64_below_2_20: "binary64 (1 / 2 ^ 20 - 1 / 2 ^ 73) = Fin (1 / 2 ^ 20 - 1 / 2 ^ 73)"
  using binary64_eval [of "- 21" "1 / 2 ^ 20 - 1 / 2 ^ 73" 9007199254740991]
  by (simp add: powi_simps)

lemma binary64_below_64_squared:
  "binary64 ((64 - 1 / 2 ^ 47) * (64 - 1 / 2 ^ 47)) = Fin (4096 - 1 / 2 ^ 40)"
  using binary64_eval [of 11 "(64 - 1 / 2 ^ 47) * (64 - 1 / 2 ^ 47)" 9007199254740990]
  by (simp add: powi_simps)

lemma binary64_below_2_20_squared:
  "binary64 ((1 / 2 ^ 20 - 1 / 2 ^ 73) * (1 / 2 ^ 20 - 1 / 2 ^ 73)) = Fin (1 / 2 ^ 40 - 1 / 2 ^ 92)"
  using binary64_eval
    [of "- 41" "(1 / 2 ^ 20 - 1 / 2 ^ 73) * (1 / 2 ^ 20 - 1 / 2 ^ 73)" 9007199254740990]
  by (simp add: powi_simps)

lemma binary64_sum_to_4096:
  "binary64 (4096 - 1 / 2 ^ 40 + (1 / 2 ^ 40 - 1 / 2 ^ 92)) = Fin 4096"
  using binary64_eval [of 11 "4096 - 1 / 2 ^ 40 + (1 / 2 ^ 40 - 1 / 2 ^ 92)" 9007199254740992]
  by (simp add: powi_simps)

lemma sqrt_4096: "sqrt 4096 = 64"
  by (rule real_sqrt_unique) simp_all

lemma binary64_2_600: "binary64 (1 / 2 ^ 600) = Fin (1 / 2 ^ 600)"
  using binary64_eval [of "- 600" "1 / 2 ^ 600" "2 ^ 52"]
  by (simp add: powi_simps)

lemma binary64_2_600_squared: "binary64 (1 / 2 ^ 600 * (1 / 2 ^ 600)) = Fin 0"
  by (rule binary64_underflow) simp

lemma binary64_2_899: "binary64 (1 / 2 ^ 900 * 2) = Fin (1 / 2 ^ 899)"
  using binary64_eval [of "- 899" "1 / 2 ^ 900 * 2" "2 ^ 52"]
  by (simp add: powi_simps)

lemma binary64_2_900: "binary64 (1 / 2 ^ 900) = Fin (1 / 2 ^ 900)"
  using binary64_eval [of "- 900" "1 / 2 ^ 900" "2 ^ 52"]
  by (simp add: powi_simps)

lemma binary64_2_512: "binary64 (2 ^ 512) = Fin (2 ^ 512)"
  using binary64_eval [of 512 "2 ^ 512" "2 ^ 52"]
  by (simp add: powi_simps)

lemma binary64_2_512_squared: "binary64 (2 ^ 512 * 2 ^ 512) = PosInf"
  by (rule binary64_overflow) simp

text \<open>
  The doubles of the overflowing character: the square of \<open>19 * 2 powi (-541)\<close> is
  \<open>1.41\<close> times the smallest positive double \<open>2 powi (-1074)\<close> and rounds to it.
\<close>

lemma binary64_short: "binary64 (19 / 2 ^ 541) = Fin (19 / 2 ^ 541)"
  using binary64_eval [of "- 537" "19 / 2 ^ 541" "19 * 2 ^ 48"]
  by (simp add: powi_simps)

lemma binary64_short_squared: "binary64 (19 / 2 ^ 541 * (19 / 2 ^ 541)) = Fin (1 / 2 ^ 1074)"
  using binary64_eval_subnormal [of "19 / 2 ^ 541 * (19 / 2 ^ 541)" 1]
  by (simp add: powi_simps)

lemma binary64_least: "binary64 (1 / 2 ^ 1074) = Fin (1 / 2 ^ 1074)"
  using binary64_eval_subnormal [of "1 / 2 ^ 1074" 1]
  by (simp add: powi_simps)

lemma sqrt_least: "sqrt (1 / 2 ^ 1074) = 1 / 2 ^ 537"
  by (rule real_sqrt_unique) (simp_all add: power2_eq_square)

lemma binary64_sqrt_least: "binary64 (1 / 2 ^ 537) = Fin (1 / 2 ^ 537)"
  using binary64_eval [of "- 537" "1 / 2 ^ 537" "2 ^ 52"]
  by (simp add: powi_simps)

lemma binary64_19_16: "binary64 (19 / 16) = Fin (19 / 16)"
  using binary64_eval [of 0 "19 / 16" "19 * 2 ^ 48"]
  by (simp add: powi_simps)

lemma binary64_fast: "binary64 (7 * 2 ^ 1021) = Fin (7 * 2 ^ 1021)"
  using binary64_eval_top [of "7 * 2 ^ 1021" "7 * 2 ^ 50"]
  by simp

lemma binary64_fast_overflow: "binary64 (19 / 16 * (7 * 2 ^ 1021)) = PosInf"
  by (rule binary64_overflow) simp

lemma sqrt_2_1200: "sqrt (1 / 2 ^ 1200) = 1 / 2 ^ 600"
  by (rule real_sqrt_unique) (simp_all add: power2_eq_square)


section \<open>Claims\<close>

text \<open>
  C1. For every character whose position, direction, speed and elapsed time are finite
  and whose boundary has \<open>minX <= maxX\<close> and \<open>minY <= maxY\<close> (an infinite bound on
  either side included), the position after \<open>update\<close> lies within the boundary, bounds
  included: in exact arithmetic always, and in double-precision arithmetic when the
  speed and the elapsed time are doubles and no component of the direction exceeds 1 in
  absolute value. The sign of the speed and of the elapsed time is not needed.
\<close>

theorem update_within_boundary:
  assumes "is_fin (pos_x c)" and "is_fin (pos_y c)"
    and "is_fin (px (direction c))" and "is_fin (py (direction c))"
    and "is_fin (speed c)" and "is_fin deltaTime"
    and "jle (minX (boundary c)) (maxX (boundary c))"
    and "jle (minY (boundary c)) (maxY (boundary c))"
  shows "within_boundary (boundary c) (getPosition (update exact c deltaTime)) \<and>
         (stored binary64 (speed c) \<and> stored binary64 deltaTime \<and> unit_box (direction c) \<longrightarrow>
          within_boundary (boundary c) (getPosition (update binary64 c deltaTime)))"
proof -
  have "within_boundary (boundary c) (getPosition (update exact c deltaTime))"
    using assms
    by (intro update_within_rounded rounding_ok_exact scaled_speed_exact seconds_exact)
  moreover have "within_boundary (boundary c) (getPosition (update binary64 c deltaTime))"
    if "stored binary64 (speed c)" and "stored binary64 deltaTime" and "unit_box (direction c)"
    using that assms
    by (intro update_within_rounded rounding_ok_binary64 binary64_scaled_speed binary64_seconds)
       (simp_all add: unit_box_def)
  ultimately show ?thesis by blast
qed

theorem update_within_boundary_witness:
  "getPosition (update exact
      \<lparr>pos_x = Fin 0, pos_y = Fin 0, speed = Fin 100,
       direction = \<lparr>px = Fin (- 1), py = Fin 0\<rparr>, boundary = canvas\<rparr> (Fin 1000)) =
     \<lparr>px = Fin 0, py = Fin 0\<rparr> \<and>
   within_boundary canvas (getPosition (update exact
      \<lparr>pos_x = Fin 0, pos_y = Fin 0, speed = Fin 100,
       direction = \<lparr>px = Fin (- 1), py = Fin 0\<rparr>, boundary = canvas\<rparr> (Fin 1000))) \<and>
   within_boundary canvas (getPosition (update binary64
      \<lparr>pos_x = Fin 0, pos_y = Fin 0, speed = Fin 100,
       direction = \<lparr>px = Fin (- 1), py = Fin 0\<rparr>, boundary = canvas\<rparr> (Fin 1000)))"
proof -
  let ?c = "\<lparr>pos_x = Fin 0, pos_y = Fin 0, speed = Fin 100,
             direction = \<lparr>px = Fin (- 1), py = Fin 0\<rparr>, boundary = canvas\<rparr>"
  have pre: "is_fin (pos_x ?c)" "is_fin (pos_y ?c)"
    "is_fin (px (direction ?c))" "is_fin (py (direction ?c))"
    "is_fin (speed ?c)" "is_fin (Fin 1000)"
    "jle (minX (boundary ?c)) (maxX (boundary ?c))"
    "jle (minY (boundary ?c)) (maxY (boundary ?c))"
    by (simp_all add: canvas_def)
  have fin: "stored binary64 (speed ?c)" "stored binary64 (Fin 1000)" "unit_box (direction ?c)"
    by (simp_all add: unit_box_def binary64_100 binary64_1000)
  have v: "getPosition (update exact ?c (Fin 1000)) = \<lparr>px = Fin 0, py = Fin 0\<rparr>"
    by (simp add: update_def getPosition_def exact_def canvas_def Let_def)
  show ?thesis
    using update_within_boundary [OF pre] fin v
    by simp
qed

text \<open>
  C2 as amended. In exact arithmetic, for every pair of finite numbers \<open>(a, b)\<close>:
  \<open>sqrt(a\<^sup>2 + b\<^sup>2) > 0\<close> holds unless both are zero, the stored direction is then
  \<open>(a / len, b / len)\<close> and its magnitude is exactly 1; for \<open>(0, 0)\<close> the stored
  direction is exactly \<open>(0, 0)\<close>. So the stored magnitude is exactly 1 or exactly 0.
  Under every rounding the stored direction is \<open>(x / len, y / len)\<close> as the language
  computes it, whenever the computed length is positive, and it is exactly \<open>(0, 0)\<close>
  for the input \<open>(0, 0)\<close> when the rounding leaves zero as it is. In double
  precision, for every input other than \<open>(0, 0)\<close> whose components are of moderate
  size (each is zero or of a magnitude from \<open>2 powi (-500)\<close> to \<open>2 powi 500\<close>), the
  computed length is positive and the magnitude of the stored direction is within
  \<open>10\<^sup>-\<^sup>1\<^sup>5\<close> of 1.
\<close>

theorem setDirection_normalises:
  "(jlt (Fin 0) (magnitude rnd \<lparr>px = x, py = y\<rparr>) \<longrightarrow>
      direction (setDirection rnd c x y) =
        \<lparr>px = jdiv rnd x (magnitude rnd \<lparr>px = x, py = y\<rparr>),
         py = jdiv rnd y (magnitude rnd \<lparr>px = x, py = y\<rparr>)\<rparr>) \<and>
   (jlt (Fin 0) (magnitude exact \<lparr>px = Fin a, py = Fin b\<rparr>) \<longleftrightarrow> \<not> (a = 0 \<and> b = 0)) \<and>
   (\<not> (a = 0 \<and> b = 0) \<longrightarrow>
      direction (setDirection exact c (Fin a) (Fin b)) =
        \<lparr>px = Fin (a / sqrt (a\<^sup>2 + b\<^sup>2)), py = Fin (b / sqrt (a\<^sup>2 + b\<^sup>2))\<rparr> \<and>
      magnitude exact (direction (setDirection exact c (Fin a) (Fin b))) = Fin 1) \<and>
   (rnd 0 = Fin 0 \<longrightarrow>
      direction (setDirection rnd c (Fin 0) (Fin 0)) = \<lparr>px = Fin 0, py = Fin 0\<rparr>) \<and>
   direction (setDirection exact c (Fin 0) (Fin 0)) = \<lparr>px = Fin 0, py = Fin 0\<rparr> \<and>
   direction (setDirection binary64 c (Fin 0) (Fin 0)) = \<lparr>px = Fin 0, py = Fin 0\<rparr> \<and>
   (magnitude exact (direction (setDirection exact c (Fin a) (Fin b))) = Fin 1 \<or>
    magnitude exact (direction (setDirection exact c (Fin a) (Fin b))) = Fin 0) \<and>
   (moderate a \<and> moderate b \<and> \<not> (a = 0 \<and> b = 0) \<longrightarrow>
      jlt (Fin 0) (magnitude binary64 \<lparr>px = Fin a, py = Fin b\<rparr>) \<and>
      near (1 / 10 ^ 15)
        (magnitude exact (direction (setDirection binary64 c (Fin a) (Fin b)))) 1)"
proof -
  let ?n = "a\<^sup>2 + b\<^sup>2"
  have len: "magnitude exact \<lparr>px = Fin a, py = Fin b\<rparr> = Fin (sqrt ?n)"
    by (simp add: magnitude_def exact_def power2_eq_square not_less)
  have pos: "0 < sqrt ?n \<longleftrightarrow> \<not> (a = 0 \<and> b = 0)"
    by (simp add: sum_power2_gt_zero_iff)
  have zero_rnd: "rnd 0 = Fin 0 \<longrightarrow>
      direction (setDirection rnd c (Fin 0) (Fin 0)) = \<lparr>px = Fin 0, py = Fin 0\<rparr>"
    by (simp add: setDirection_def Let_def)
  have zero: "direction (setDirection exact c (Fin 0) (Fin 0)) = \<lparr>px = Fin 0, py = Fin 0\<rparr>"
    by (simp add: setDirection_def exact_def Let_def)
  have unit: "direction (setDirection exact c (Fin a) (Fin b)) =
        \<lparr>px = Fin (a / sqrt ?n), py = Fin (b / sqrt ?n)\<rparr> \<and>
      magnitude exact (direction (setDirection exact c (Fin a) (Fin b))) = Fin 1"
    if nz: "\<not> (a = 0 \<and> b = 0)"
  proof -
    have p: "0 < sqrt ?n" using nz pos by simp
    have n0: "?n \<noteq> 0" using p by auto
    have d: "direction (setDirection exact c (Fin a) (Fin b)) =
        \<lparr>px = Fin (a / sqrt ?n), py = Fin (b / sqrt ?n)\<rparr>"
      using p nz by (simp add: setDirection_def exact_def Let_def not_less flip: power2_eq_square)
    have sq: "sqrt ?n * sqrt ?n = ?n"
      by simp
    have "a / sqrt ?n * (a / sqrt ?n) + b / sqrt ?n * (b / sqrt ?n) =
            (a * a + b * b) / (sqrt ?n * sqrt ?n)"
      by (simp only: times_divide_times_eq add_divide_distrib)
    also have "\<dots> = ?n / ?n"
      using sq by (simp add: power2_eq_square)
    also have "\<dots> = 1"
      using n0 by simp
    finally have "magnitude exact \<lparr>px = Fin (a / sqrt ?n), py = Fin (b / sqrt ?n)\<rparr> = Fin 1"
      by (simp add: magnitude_def exact_def)
    with d show ?thesis by simp
  qed
  have either: "magnitude exact (direction (setDirection exact c (Fin a) (Fin b))) = Fin 1 \<or>
    magnitude exact (direction (setDirection exact c (Fin a) (Fin b))) = Fin 0"
  proof (cases "a = 0 \<and> b = 0")
    case True
    then show ?thesis using zero by (simp add: magnitude_def exact_def)
  next
    case False
    then show ?thesis using unit by blast
  qed
  have gen: "jlt (Fin 0) (magnitude rnd \<lparr>px = x, py = y\<rparr>) \<longrightarrow>
      direction (setDirection rnd c x y) =
        \<lparr>px = jdiv rnd x (magnitude rnd \<lparr>px = x, py = y\<rparr>),
         py = jdiv rnd y (magnitude rnd \<lparr>px = x, py = y\<rparr>)\<rparr>"
    by (simp add: setDirection_def magnitude_def Let_def)
  have test: "jlt (Fin 0) (magnitude exact \<lparr>px = Fin a, py = Fin b\<rparr>) \<longleftrightarrow> \<not> (a = 0 \<and> b = 0)"
    using len pos by simp
  have double: "moderate a \<and> moderate b \<and> \<not> (a = 0 \<and> b = 0) \<longrightarrow>
      jlt (Fin 0) (magnitude binary64 \<lparr>px = Fin a, py = Fin b\<rparr>) \<and>
      near (1 / 10 ^ 15)
        (magnitude exact (direction (setDirection binary64 c (Fin a) (Fin b)))) 1"
    using setDirection_binary64_near_unit [of a b c] by blast
  have zero64: "direction (setDirection binary64 c (Fin 0) (Fin 0)) = \<lparr>px = Fin 0, py = Fin 0\<rparr>"
    by (simp add: setDirection_def binary64_0 Let_def)
  show ?thesis
    using gen test zero_rnd zero zero64 unit either double by blast
qed

theorem setDirection_normalises_witness:
  "jlt (Fin 0) (magnitude exact \<lparr>px = Fin 3, py = Fin 4\<rparr>) \<and>
   direction (setDirection exact outside_left (Fin 3) (Fin 4)) =
     \<lparr>px = Fin (3 / 5), py = Fin (4 / 5)\<rparr> \<and>
   magnitude exact (direction (setDirection exact outside_left (Fin 3) (Fin 4))) = Fin 1 \<and>
   direction (setDirection exact outside_left (Fin 0) (Fin 0)) = \<lparr>px = Fin 0, py = Fin 0\<rparr> \<and>
   direction (setDirection binary64 outside_left (Fin 0) (Fin 0)) = \<lparr>px = Fin 0, py = Fin 0\<rparr> \<and>
   jlt (Fin 0) (magnitude binary64 \<lparr>px = Fin 3, py = Fin 4\<rparr>) \<and>
   near (1 / 10 ^ 15)
     (magnitude exact (direction (setDirection binary64 outside_left (Fin 3) (Fin 4)))) 1"
proof -
  have s: "sqrt (3\<^sup>2 + 4\<^sup>2) = (5::real)"
    by (rule real_sqrt_unique) simp_all
  have nz: "\<not> ((3::real) = 0 \<and> (4::real) = 0)"
    by simp
  have z: "exact 0 = Fin 0"
    by (simp add: exact_def)
  have m: "moderate 3" "moderate 4"
    by (simp_all add: moderate_def)
  note all = setDirection_normalises [of exact "Fin 3" "Fin 4" outside_left 3 4]
  note dbl = setDirection_normalises [of binary64 "Fin 0" "Fin 0" outside_left 3 4]
  have positive: "jlt (Fin 0) (magnitude exact \<lparr>px = Fin 3, py = Fin 4\<rparr>)"
    using all nz by blast
  have quotient: "direction (setDirection exact outside_left (Fin 3) (Fin 4)) =
      \<lparr>px = jdiv exact (Fin 3) (magnitude exact \<lparr>px = Fin 3, py = Fin 4\<rparr>),
       py = jdiv exact (Fin 4) (magnitude exact \<lparr>px = Fin 3, py = Fin 4\<rparr>)\<rparr>"
    using all positive by blast
  have unit: "direction (setDirection exact outside_left (Fin 3) (Fin 4)) =
        \<lparr>px = Fin (3 / sqrt (3\<^sup>2 + 4\<^sup>2)), py = Fin (4 / sqrt (3\<^sup>2 + 4\<^sup>2))\<rparr> \<and>
      magnitude exact (direction (setDirection exact outside_left (Fin 3) (Fin 4))) = Fin 1"
    using all nz by blast
  have zero: "direction (setDirection exact outside_left (Fin 0) (Fin 0)) =
      \<lparr>px = Fin 0, py = Fin 0\<rparr>"
    using all z by blast
  have zero64: "direction (setDirection binary64 outside_left (Fin 0) (Fin 0)) =
      \<lparr>px = Fin 0, py = Fin 0\<rparr>"
    using dbl binary64_0 by blast
  have near64: "jlt (Fin 0) (magnitude binary64 \<lparr>px = Fin 3, py = Fin 4\<rparr>) \<and>
      near (1 / 10 ^ 15)
        (magnitude exact (direction (setDirection binary64 outside_left (Fin 3) (Fin 4)))) 1"
    using dbl m nz by blast
  show ?thesis
    using positive unit zero zero64 near64 unfolding s by blast
qed

text \<open>
  C2 as stated fails in the double-precision arithmetic of the language:
  \<open>setDirection(1, 1)\<close> finds the length \<open>1.4142135623730951 > 0\<close> and stores
  \<open>0.7071067811865475\<close> twice. The magnitude of that vector is not 1, and computed
  in double precision it is \<open>0.9999999999999999\<close>; it is within \<open>10\<^sup>-\<^sup>1\<^sup>5\<close> of 1.
  Outside the moderate range not even that holds: \<open>2 ^ 512\<close> is a double whose square
  overflows, so that \<open>setDirection(2 ^ 512, 0)\<close> finds the length \<open>Infinity > 0\<close> and
  stores \<open>(0, 0)\<close>.
\<close>

theorem setDirection_diagonal_not_unit:
  "jlt (Fin 0) (magnitude binary64 \<lparr>px = Fin 1, py = Fin 1\<rparr>) \<and>
   direction (setDirection binary64 (constructor None None None None) (Fin 1) (Fin 1)) =
     \<lparr>px = Fin (6369051672525772 / 2 ^ 53), py = Fin (6369051672525772 / 2 ^ 53)\<rparr> \<and>
   magnitude exact
     (direction (setDirection binary64 (constructor None None None None) (Fin 1) (Fin 1))) \<noteq> Fin 1 \<and>
   magnitude binary64
     (direction (setDirection binary64 (constructor None None None None) (Fin 1) (Fin 1))) =
     Fin (9007199254740991 / 2 ^ 53) \<and>
   near (1 / 10 ^ 15)
     (magnitude exact
        (direction (setDirection binary64 (constructor None None None None) (Fin 1) (Fin 1)))) 1 \<and>
   stored binary64 (Fin (2 ^ 512)) \<and>
   magnitude binary64 \<lparr>px = Fin (2 ^ 512), py = Fin 0\<rparr> = PosInf \<and>
   direction (setDirection binary64 (constructor None None None None) (Fin (2 ^ 512)) (Fin 0)) =
     \<lparr>px = Fin 0, py = Fin 0\<rparr>"
proof -
  have a: "jlt (Fin 0) (magnitude binary64 \<lparr>px = Fin 1, py = Fin 1\<rparr>)"
    using binary64_sqrt_2 by (simp add: magnitude_def binary64_1 binary64_2)
  have b: "magnitude exact
      \<lparr>px = Fin (6369051672525772 / 2 ^ 53), py = Fin (6369051672525772 / 2 ^ 53)\<rparr> \<noteq> Fin 1"
    by (simp add: magnitude_def exact_def)
  have c: "magnitude binary64
      \<lparr>px = Fin (6369051672525772 / 2 ^ 53), py = Fin (6369051672525772 / 2 ^ 53)\<rparr> =
      Fin (9007199254740991 / 2 ^ 53)"
    using binary64_square binary64_sum binary64_sqrt_sum
    by (simp add: magnitude_def)
  have close: "1 - 1 / 10 ^ 15 <
        sqrt (6369051672525772 / 2 ^ 53 * (6369051672525772 / 2 ^ 53) +
              6369051672525772 / 2 ^ 53 * (6369051672525772 / 2 ^ 53)) \<and>
      sqrt (6369051672525772 / 2 ^ 53 * (6369051672525772 / 2 ^ 53) +
            6369051672525772 / 2 ^ 53 * (6369051672525772 / 2 ^ 53)) < 1 + 1 / 10 ^ 15"
    by (rule sqrt_between) (simp_all add: power2_eq_square)
  have d: "near (1 / 10 ^ 15) (magnitude exact
      \<lparr>px = Fin (6369051672525772 / 2 ^ 53), py = Fin (6369051672525772 / 2 ^ 53)\<rparr>) 1"
    using close by (simp add: magnitude_def exact_def)
  have e: "stored binary64 (Fin (2 ^ 512))"
    using binary64_2_512 by simp
  have f: "magnitude binary64 \<lparr>px = Fin (2 ^ 512), py = Fin 0\<rparr> = PosInf"
    using binary64_2_512_squared by (simp add: magnitude_def binary64_0)
  have g: "direction (setDirection binary64 (constructor None None None None)
      (Fin (2 ^ 512)) (Fin 0)) = \<lparr>px = Fin 0, py = Fin 0\<rparr>"
    using binary64_2_512_squared by (simp add: setDirection_def Let_def binary64_0)
  show ?thesis
    using a b c d e f g by (simp only: setDirection_binary64_diagonal simp_thms)
qed

text \<open>
  C3 as amended. With the stored direction zero and a finite speed, after one or more
  calls of \<open>update\<close> the position is the starting position clamped to the boundary,
  whatever the number of calls (no drift), and if the starting position lies within the
  boundary, no number of calls changes it: in exact arithmetic for finite elapsed times,
  and in double-precision arithmetic when the position, the bounds and the elapsed
  times are doubles.
\<close>

theorem zero_direction_no_drift:
  assumes "direction c = \<lparr>px = Fin 0, py = Fin 0\<rparr>" and "is_fin (speed c)"
    and "\<forall>t\<in>set dts. is_fin t"
  shows "(dts \<noteq> [] \<longrightarrow>
            getPosition (updates exact c dts) = clamped (boundary c) (getPosition c)) \<and>
         (within_boundary (boundary c) (getPosition c) \<longrightarrow>
            getPosition (updates exact c dts) = getPosition c) \<and>
         (stored_state binary64 c \<and> (\<forall>t\<in>set dts. stored binary64 t) \<longrightarrow>
            (dts \<noteq> [] \<longrightarrow>
               getPosition (updates binary64 c dts) = clamped (boundary c) (getPosition c)) \<and>
            (within_boundary (boundary c) (getPosition c) \<longrightarrow>
               getPosition (updates binary64 c dts) = getPosition c))"
proof -
  have gen: "(dts \<noteq> [] \<longrightarrow>
        getPosition (updates r c dts) = clamped (boundary c) (getPosition c)) \<and>
      (within_boundary (boundary c) (getPosition c) \<longrightarrow>
        getPosition (updates r c dts) = getPosition c)"
    if ok: "rounding_ok r" and st: "stored_state r c"
      and fin: "\<forall>t\<in>set dts. is_fin (jdiv r t (Fin 1000))" for r
  proof (cases "dts = []")
    case True
    then show ?thesis by (simp add: updates_def)
  next
    case False
    have z: "r 0 = Fin 0"
      using ok by (simp add: rounding_ok_def)
    have "getPosition (updates r c dts) = clamped (boundary c) (getPosition c)"
      using updates_zero_direction_rounded [OF z st assms(1,2) fin False]
      by (simp add: getPosition_def)
    then show ?thesis
      using False by (simp add: clamped_inside)
  qed
  have e: "\<forall>t\<in>set dts. is_fin (jdiv exact t (Fin 1000))"
    using assms(3) by (simp add: seconds_exact)
  have b: "\<forall>t\<in>set dts. is_fin (jdiv binary64 t (Fin 1000))"
    if "\<forall>t\<in>set dts. stored binary64 t"
    using that assms(3) by (simp add: binary64_seconds)
  show ?thesis
    using gen [OF rounding_ok_exact stored_state_exact e] gen [OF rounding_ok_binary64 _ b]
    by blast
qed

theorem zero_direction_no_drift_witness:
  "getPosition (updates exact outside_left [Fin 16, Fin 16, Fin 16]) = \<lparr>px = Fin 0, py = Fin 0\<rparr> \<and>
   getPosition (updates exact (constructor None None None (Some canvas)) [Fin 16, Fin 16]) =
     \<lparr>px = Fin 0, py = Fin 0\<rparr> \<and>
   getPosition (updates binary64 outside_left [Fin 16, Fin 16, Fin 16]) =
     \<lparr>px = Fin 0, py = Fin 0\<rparr>"
proof -
  have a: "direction outside_left = \<lparr>px = Fin 0, py = Fin 0\<rparr>" "is_fin (speed outside_left)"
    "\<forall>t\<in>set [Fin 16, Fin 16, Fin 16]. is_fin t"
    by (simp_all add: outside_left_def constructor_def)
  let ?c = "constructor None None None (Some canvas)"
  have b: "direction ?c = \<lparr>px = Fin 0, py = Fin 0\<rparr>" "is_fin (speed ?c)"
    "\<forall>t\<in>set [Fin 16, Fin 16]. is_fin t"
    by (simp_all add: constructor_def)
  have inside: "within_boundary (boundary ?c) (getPosition ?c)"
    by (simp add: within_boundary_def constructor_def canvas_def getPosition_def)
  have st: "stored_state binary64 outside_left"
    by (simp add: stored_state_def outside_left_def constructor_def canvas_def
        binary64_0 binary64_minus_5 binary64_800 binary64_600)
  have sec: "\<forall>t\<in>set [Fin 16, Fin 16, Fin 16]. stored binary64 t"
    by (simp add: binary64_16)
  have cl: "clamped (boundary outside_left) (getPosition outside_left) = \<lparr>px = Fin 0, py = Fin 0\<rparr>"
    by (simp add: outside_left_def constructor_def canvas_def getPosition_def clamped_def)
  show ?thesis
    using zero_direction_no_drift [OF a] zero_direction_no_drift [OF b] inside st sec cl
    by (simp add: constructor_def getPosition_def)
qed

text \<open>
  C3 as stated fails for a character that starts outside its boundary: created at
  \<open>(-5, 0)\<close> in the 800 by 600 boundary, with its direction still zero, its first
  \<open>update(16)\<close> moves it to \<open>(0, 0)\<close>, in exact and in double-precision arithmetic.
\<close>

theorem zero_direction_moves_outside_start:
  "direction outside_left = \<lparr>px = Fin 0, py = Fin 0\<rparr> \<and>
   getPosition outside_left = \<lparr>px = Fin (- 5), py = Fin 0\<rparr> \<and>
   getPosition (update exact outside_left (Fin 16)) = \<lparr>px = Fin 0, py = Fin 0\<rparr> \<and>
   getPosition (update binary64 outside_left (Fin 16)) = \<lparr>px = Fin 0, py = Fin 0\<rparr>"
proof -
  have e: "getPosition (update exact outside_left (Fin 16)) = \<lparr>px = Fin 0, py = Fin 0\<rparr>"
    by (simp add: update_def outside_left_def constructor_def canvas_def getPosition_def
        exact_def Let_def)
  have b: "getPosition (update binary64 outside_left (Fin 16)) = \<lparr>px = Fin 0, py = Fin 0\<rparr>"
    using binary64_16_ms binary64_minus_5
    by (simp add: update_def outside_left_def constructor_def canvas_def getPosition_def
        binary64_0 Let_def)
  show ?thesis
    using e b by (simp add: outside_left_def constructor_def getPosition_def)
qed

text \<open>
  C4 as amended. For a finite direction, an \<open>update\<close> with elapsed time 0 (and a finite
  speed), and an \<open>update\<close> of a character of speed 0 (for a finite elapsed time),
  displace nothing: the new position is the old position clamped to the boundary, and
  a character that lies within its boundary is left as it is. This holds in exact
  arithmetic, and in double-precision arithmetic when the position, the bounds and the
  elapsed time are doubles and either the speed is 0 or it is a double and no
  component of the direction exceeds 1 in absolute value.
\<close>

theorem no_time_or_no_speed_no_movement:
  assumes "is_fin (px (direction c))" and "is_fin (py (direction c))"
    and "(deltaTime = Fin 0 \<and> is_fin (speed c)) \<or> (speed c = Fin 0 \<and> is_fin deltaTime)"
  shows "getPosition (update exact c deltaTime) = clamped (boundary c) (getPosition c) \<and>
         (within_boundary (boundary c) (getPosition c) \<longrightarrow> update exact c deltaTime = c) \<and>
         (stored_state binary64 c \<and> stored binary64 deltaTime \<and>
          (speed c = Fin 0 \<or> stored binary64 (speed c) \<and> unit_box (direction c)) \<longrightarrow>
            getPosition (update binary64 c deltaTime) = clamped (boundary c) (getPosition c) \<and>
            (within_boundary (boundary c) (getPosition c) \<longrightarrow> update binary64 c deltaTime = c))"
proof -
  have which: "deltaTime = Fin 0 \<or> speed c = Fin 0"
    using assms(3) by blast
  have fs: "is_fin (speed c)" and ft: "is_fin deltaTime"
    using assms(3) by auto
  have gen: "getPosition (update r c deltaTime) = clamped (boundary c) (getPosition c) \<and>
      (within_boundary (boundary c) (getPosition c) \<longrightarrow> update r c deltaTime = c)"
    if ok: "rounding_ok r" and st: "stored_state r c"
      and fx: "is_fin (jmul r (px (direction c)) (speed c))"
      and fy: "is_fin (jmul r (py (direction c)) (speed c))"
      and fq: "is_fin (jdiv r deltaTime (Fin 1000))" for r
  proof -
    have pos: "getPosition (update r c deltaTime) = clamped (boundary c) (getPosition c)"
      using update_zero_displacement [OF ok st assms(1,2) fx fy fq which]
      by (simp add: getPosition_def)
    then have "update r c deltaTime = c" if "within_boundary (boundary c) (getPosition c)"
      using that by (intro same_position_same_character) (simp add: clamped_inside)
    with pos show ?thesis by simp
  qed
  have e: "is_fin (jmul exact (px (direction c)) (speed c))"
    "is_fin (jmul exact (py (direction c)) (speed c))"
    "is_fin (jdiv exact deltaTime (Fin 1000))"
    using assms(1,2) fs ft by (simp_all add: scaled_speed_exact seconds_exact)
  have b: "is_fin (jmul binary64 (px (direction c)) (speed c)) \<and>
      is_fin (jmul binary64 (py (direction c)) (speed c))"
    if "speed c = Fin 0 \<or> stored binary64 (speed c) \<and> unit_box (direction c)"
    using that
  proof
    assume "speed c = Fin 0"
    then show ?thesis
      using assms(1,2) by (simp add: jmul_zero_right binary64_0)
  next
    assume "stored binary64 (speed c) \<and> unit_box (direction c)"
    then show ?thesis
      using fs by (simp add: unit_box_def binary64_scaled_speed)
  qed
  have q: "is_fin (jdiv binary64 deltaTime (Fin 1000))" if "stored binary64 deltaTime"
    using ft that by (rule binary64_seconds)
  show ?thesis
    using gen [OF rounding_ok_exact stored_state_exact e] gen [OF rounding_ok_binary64] b q
    by blast
qed

theorem no_time_or_no_speed_no_movement_witness:
  "getPosition (update exact (heading_right exact) (Fin 0)) = \<lparr>px = Fin 0, py = Fin 0\<rparr> \<and>
   update exact (heading_right exact) (Fin 0) = heading_right exact \<and>
   update exact (setSpeed (heading_right exact) (Fin 0)) (Fin 16) =
     setSpeed (heading_right exact) (Fin 0) \<and>
   update binary64 (heading_right binary64) (Fin 0) = heading_right binary64 \<and>
   update binary64 (setSpeed (heading_right binary64) (Fin 0)) (Fin 16) =
     setSpeed (heading_right binary64) (Fin 0)"
proof -
  have same: "heading_right exact = heading_right binary64"
    by (simp add: heading_right_def setDirection_def constructor_def exact_def Let_def
        binary64_0 binary64_1)
  let ?c = "heading_right binary64"
  have d: "direction ?c = \<lparr>px = Fin 1, py = Fin 0\<rparr>"
    by (simp add: heading_right_def setDirection_def constructor_def Let_def
        binary64_0 binary64_1)
  have f: "pos_x ?c = Fin 0" "pos_y ?c = Fin 0" "speed ?c = Fin 10" "boundary ?c = unbounded"
    by (simp_all add: heading_right_def setDirection_def constructor_def Let_def)
  have fin: "is_fin (px (direction ?c))" "is_fin (py (direction ?c))"
    using d by simp_all
  have t0: "(Fin 0 = Fin 0 \<and> is_fin (speed ?c)) \<or> (speed ?c = Fin 0 \<and> is_fin (Fin 0))"
    using f by simp
  have inside: "within_boundary (boundary ?c) (getPosition ?c)"
    using f by (simp add: within_boundary_def unbounded_def getPosition_def)
  have st: "stored_state binary64 ?c" "stored binary64 (Fin 0)"
    "stored binary64 (speed ?c)" "unit_box (direction ?c)"
    using f d by (simp_all add: stored_state_def unbounded_def unit_box_def binary64_0 binary64_10)
  let ?s = "setSpeed ?c (Fin 0)"
  have fin': "is_fin (px (direction ?s))" "is_fin (py (direction ?s))"
    using d by (simp_all add: setSpeed_def)
  have s0: "(Fin 16 = Fin 0 \<and> is_fin (speed ?s)) \<or> (speed ?s = Fin 0 \<and> is_fin (Fin 16))"
    by (simp add: setSpeed_def)
  have inside': "within_boundary (boundary ?s) (getPosition ?s)"
    using f by (simp add: within_boundary_def unbounded_def getPosition_def setSpeed_def)
  have st': "stored_state binary64 ?s" "stored binary64 (Fin 16)" "speed ?s = Fin 0"
    using f by (simp_all add: stored_state_def unbounded_def setSpeed_def binary64_0 binary64_16)
  have pos: "clamped (boundary ?c) (getPosition ?c) = \<lparr>px = Fin 0, py = Fin 0\<rparr>"
    using f by (simp add: clamped_def unbounded_def getPosition_def)
  have gp: "getPosition ?c = \<lparr>px = Fin 0, py = Fin 0\<rparr>"
    using f by (simp add: getPosition_def)
  show ?thesis
    unfolding same
    using no_time_or_no_speed_no_movement [OF fin t0] inside st
      no_time_or_no_speed_no_movement [OF fin' s0] inside' st' pos gp
    by simp
qed

text \<open>
  C4 as stated fails for a character that starts outside its boundary: created at
  \<open>(400, 700)\<close> in the 800 by 600 boundary and heading right, an \<open>update(0)\<close> moves it
  to \<open>(400, 600)\<close>, and so does an \<open>update(16)\<close> once its speed is set to 0, in exact
  and in double-precision arithmetic. In double precision it also fails within the
  boundary when direction times speed overflows: for the character of speed
  \<open>7 * 2 ^ 1021\<close>, the square of \<open>19 * 2 powi (-541)\<close> rounds to the smallest positive
  double, \<open>setDirection\<close> finds the length \<open>2 powi (-537)\<close> and stores \<open>(1.1875, 0)\<close>,
  and \<open>update(0)\<close> multiplies \<open>Infinity\<close> by 0 and leaves the character at
  \<open>(NaN, 0)\<close>.
\<close>

theorem no_time_or_no_speed_moves_outside_start:
  "getPosition (outside_below exact) = \<lparr>px = Fin 400, py = Fin 700\<rparr> \<and>
   getPosition (update exact (outside_below exact) (Fin 0)) = \<lparr>px = Fin 400, py = Fin 600\<rparr> \<and>
   getPosition (update exact (setSpeed (outside_below exact) (Fin 0)) (Fin 16)) =
     \<lparr>px = Fin 400, py = Fin 600\<rparr> \<and>
   getPosition (outside_below binary64) = \<lparr>px = Fin 400, py = Fin 700\<rparr> \<and>
   getPosition (update binary64 (outside_below binary64) (Fin 0)) =
     \<lparr>px = Fin 400, py = Fin 600\<rparr> \<and>
   getPosition (update binary64 (setSpeed (outside_below binary64) (Fin 0)) (Fin 16)) =
     \<lparr>px = Fin 400, py = Fin 600\<rparr> \<and>
   stored binary64 (Fin (19 / 2 ^ 541)) \<and> stored binary64 (speed overflowing) \<and>
   speed overflowing = Fin (7 * 2 ^ 1021) \<and>
   direction overflowing = \<lparr>px = Fin (19 / 16), py = Fin 0\<rparr> \<and>
   getPosition overflowing = \<lparr>px = Fin 0, py = Fin 0\<rparr> \<and>
   within_boundary (boundary overflowing) (getPosition overflowing) \<and>
   getPosition (update binary64 overflowing (Fin 0)) = \<lparr>px = NaN, py = Fin 0\<rparr>"
proof -
  have e: "outside_below exact =
      \<lparr>pos_x = Fin 400, pos_y = Fin 700, speed = Fin 5,
       direction = \<lparr>px = Fin 1, py = Fin 0\<rparr>, boundary = canvas\<rparr>"
    by (simp add: outside_below_def setDirection_def constructor_def exact_def Let_def)
  have b: "outside_below binary64 =
      \<lparr>pos_x = Fin 400, pos_y = Fin 700, speed = Fin 5,
       direction = \<lparr>px = Fin 1, py = Fin 0\<rparr>, boundary = canvas\<rparr>"
    by (simp add: outside_below_def setDirection_def constructor_def binary64_0 binary64_1 Let_def)
  have e1: "getPosition (update exact (outside_below exact) (Fin 0)) =
      \<lparr>px = Fin 400, py = Fin 600\<rparr>"
    unfolding e by (simp add: update_def canvas_def getPosition_def exact_def Let_def)
  have e2: "getPosition (update exact (setSpeed (outside_below exact) (Fin 0)) (Fin 16)) =
      \<lparr>px = Fin 400, py = Fin 600\<rparr>"
    unfolding e by (simp add: update_def setSpeed_def canvas_def getPosition_def exact_def Let_def)
  have b1: "getPosition (update binary64 (outside_below binary64) (Fin 0)) =
      \<lparr>px = Fin 400, py = Fin 600\<rparr>"
    unfolding b
    by (simp add: update_def canvas_def getPosition_def Let_def
        binary64_0 binary64_5 binary64_400 binary64_700)
  have b2: "getPosition (update binary64 (setSpeed (outside_below binary64) (Fin 0)) (Fin 16)) =
      \<lparr>px = Fin 400, py = Fin 600\<rparr>"
    unfolding b using binary64_16_ms
    by (simp add: update_def setSpeed_def canvas_def getPosition_def Let_def
        binary64_0 binary64_400 binary64_700)
  let ?c = "constructor (Some (Fin 0)) (Some (Fin 0)) (Some (Fin (7 * 2 ^ 1021))) None"
  have s1: "jmul binary64 (Fin (19 / 2 ^ 541)) (Fin (19 / 2 ^ 541)) = Fin (1 / 2 ^ 1074)"
    using binary64_short_squared by simp
  have s2: "jmul binary64 (Fin 0) (Fin 0) = Fin 0"
    by (simp add: binary64_0)
  have s3: "jadd binary64 (Fin (1 / 2 ^ 1074)) (Fin 0) = Fin (1 / 2 ^ 1074)"
    using binary64_least by simp
  have s4: "jsqrt binary64 (Fin (1 / 2 ^ 1074)) = Fin (1 / 2 ^ 537)"
    by (simp only: jsqrt.simps sqrt_least binary64_sqrt_least) simp
  have len: "jsqrt binary64 (jadd binary64 (jmul binary64 (Fin (19 / 2 ^ 541)) (Fin (19 / 2 ^ 541)))
      (jmul binary64 (Fin 0) (Fin 0))) = Fin (1 / 2 ^ 537)"
    unfolding s1 s2 s3 s4 ..
  have q: "jdiv binary64 (Fin (19 / 2 ^ 541)) (Fin (1 / 2 ^ 537)) = Fin (19 / 16)"
    using binary64_19_16 by simp
  have z: "jdiv binary64 (Fin 0) (Fin (1 / 2 ^ 537)) = Fin 0"
    by (simp add: binary64_0)
  have o: "overflowing = ?c\<lparr>direction := \<lparr>px = Fin (19 / 16), py = Fin 0\<rparr>\<rparr>"
    unfolding overflowing_def setDirection_def Let_def len q z by simp
  have f: "pos_x overflowing = Fin 0" "pos_y overflowing = Fin 0"
    "speed overflowing = Fin (7 * 2 ^ 1021)" "boundary overflowing = unbounded"
    "direction overflowing = \<lparr>px = Fin (19 / 16), py = Fin 0\<rparr>"
    unfolding o by (simp_all add: constructor_def)
  have mx: "jmul binary64 (jmul binary64 (Fin (19 / 16)) (Fin (7 * 2 ^ 1021)))
      (jdiv binary64 (Fin 0) (Fin 1000)) = NaN"
    using binary64_fast_overflow by (simp add: binary64_0)
  have my: "jmul binary64 (jmul binary64 (Fin 0) (Fin (7 * 2 ^ 1021)))
      (jdiv binary64 (Fin 0) (Fin 1000)) = Fin 0"
    by (simp add: binary64_0)
  have u: "getPosition (update binary64 overflowing (Fin 0)) = \<lparr>px = NaN, py = Fin 0\<rparr>"
    unfolding update_def getPosition_def Let_def f point.simps mx my
    by (simp add: unbounded_def binary64_0)
  have st: "stored binary64 (Fin (19 / 2 ^ 541))" "stored binary64 (speed overflowing)"
    unfolding f using binary64_short binary64_fast by simp_all
  have gp: "getPosition overflowing = \<lparr>px = Fin 0, py = Fin 0\<rparr>"
    by (simp add: getPosition_def f)
  have inside: "within_boundary (boundary overflowing) (getPosition overflowing)"
    unfolding gp f by (simp add: within_boundary_def unbounded_def)
  have first: "getPosition (outside_below exact) = \<lparr>px = Fin 400, py = Fin 700\<rparr>"
    "getPosition (outside_below binary64) = \<lparr>px = Fin 400, py = Fin 700\<rparr>"
    by (simp_all add: e b getPosition_def)
  show ?thesis
    using first e1 e2 b1 b2 st f(3,5) gp inside u by blast
qed

text \<open>
  C5 as amended. Under every rounding, \<open>isCollidingWith\<close> is true exactly when the
  distance of the two points, as the arithmetic computes it, is strictly less than
  \<open>radius * 2\<close>, the radius being 32 when none is given. In exact arithmetic that
  distance is the Euclidean distance: for finite points \<open>(ax, ay)\<close> and \<open>(ox, oy)\<close> and
  a finite radius \<open>r\<close> the test is \<open>sqrt((ax - ox)\<^sup>2 + (ay - oy)\<^sup>2) < r * 2\<close>. In
  double precision the test agrees with the Euclidean one except within the fraction
  \<open>10\<^sup>-\<^sup>1\<^sup>5\<close> of the threshold: when the two coordinate differences and the radius
  are of moderate size, a Euclidean distance below \<open>r * 2 * (1 - 10\<^sup>-\<^sup>1\<^sup>5)\<close> gives true
  and one of at least \<open>r * 2 * (1 + 10\<^sup>-\<^sup>1\<^sup>5)\<close> gives false. The test is symmetric in
  the two points under every rounding that rounds \<open>-r\<close> to minus the rounding of \<open>r\<close>,
  as exact and double-precision arithmetic do. With the default radius, \<open>(0, 0)\<close> and
  \<open>(50, 0)\<close> collide and \<open>(0, 0)\<close> and \<open>(70, 0)\<close> do not, in both arithmetics.
\<close>

theorem isCollidingWith_iff_distance:
  "(isCollidingWith rnd c other radius \<longleftrightarrow>
      jlt (distance rnd (getPosition c) other)
        (jmul rnd (case radius of None \<Rightarrow> Fin 32 | Some r \<Rightarrow> r) (Fin 2))) \<and>
   (isCollidingWith rnd c other None \<longleftrightarrow> isCollidingWith rnd c other (Some (Fin 32))) \<and>
   distance exact \<lparr>px = Fin ax, py = Fin ay\<rparr> \<lparr>px = Fin ox, py = Fin oy\<rparr> =
     Fin (sqrt ((ax - ox)\<^sup>2 + (ay - oy)\<^sup>2)) \<and>
   (isCollidingWith exact (c\<lparr>pos_x := Fin ax, pos_y := Fin ay\<rparr>) \<lparr>px = Fin ox, py = Fin oy\<rparr>
      (Some (Fin r)) \<longleftrightarrow>
    sqrt ((ax - ox)\<^sup>2 + (ay - oy)\<^sup>2) < r * 2) \<and>
   (rounding_ok rnd \<longrightarrow>
      isCollidingWith rnd (c\<lparr>pos_x := x1, pos_y := y1\<rparr>) \<lparr>px = x2, py = y2\<rparr> radius =
      isCollidingWith rnd (c\<lparr>pos_x := x2, pos_y := y2\<rparr>) \<lparr>px = x1, py = y1\<rparr> radius) \<and>
   rounding_ok exact \<and> rounding_ok binary64 \<and>
   isCollidingWith exact (c\<lparr>pos_x := Fin 0, pos_y := Fin 0\<rparr>) \<lparr>px = Fin 50, py = Fin 0\<rparr> None \<and>
   \<not> isCollidingWith exact (c\<lparr>pos_x := Fin 0, pos_y := Fin 0\<rparr>) \<lparr>px = Fin 70, py = Fin 0\<rparr> None \<and>
   isCollidingWith binary64 (c\<lparr>pos_x := Fin 0, pos_y := Fin 0\<rparr>) \<lparr>px = Fin 50, py = Fin 0\<rparr> None \<and>
   \<not> isCollidingWith binary64 (c\<lparr>pos_x := Fin 0, pos_y := Fin 0\<rparr>) \<lparr>px = Fin 70, py = Fin 0\<rparr> None \<and>
   (moderate (ax - ox) \<and> moderate (ay - oy) \<and> moderate r \<longrightarrow>
      (sqrt ((ax - ox)\<^sup>2 + (ay - oy)\<^sup>2) < r * 2 * (1 - 1 / 10 ^ 15) \<longrightarrow>
         isCollidingWith binary64 (c\<lparr>pos_x := Fin ax, pos_y := Fin ay\<rparr>)
           \<lparr>px = Fin ox, py = Fin oy\<rparr> (Some (Fin r))) \<and>
      (r * 2 * (1 + 1 / 10 ^ 15) \<le> sqrt ((ax - ox)\<^sup>2 + (ay - oy)\<^sup>2) \<longrightarrow>
         \<not> isCollidingWith binary64 (c\<lparr>pos_x := Fin ax, pos_y := Fin ay\<rparr>)
             \<lparr>px = Fin ox, py = Fin oy\<rparr> (Some (Fin r))))"
proof -
  have nn: "\<not> (ax - ox) * (ax - ox) + (ay - oy) * (ay - oy) < 0"
    by (simp add: not_less)
  have eu: "distance exact \<lparr>px = Fin ax, py = Fin ay\<rparr> \<lparr>px = Fin ox, py = Fin oy\<rparr> =
     Fin (sqrt ((ax - ox)\<^sup>2 + (ay - oy)\<^sup>2))"
    using nn by (simp add: distance_def magnitude_def jsub_def exact_def power2_eq_square)
  have dist: "isCollidingWith exact (c\<lparr>pos_x := Fin ax, pos_y := Fin ay\<rparr>)
      \<lparr>px = Fin ox, py = Fin oy\<rparr> (Some (Fin r)) \<longleftrightarrow>
    sqrt ((ax - ox)\<^sup>2 + (ay - oy)\<^sup>2) < r * 2"
    by (simp add: isCollidingWith_distance getPosition_def eu) (simp add: exact_def)
  have sym: "isCollidingWith rnd (c\<lparr>pos_x := x1, pos_y := y1\<rparr>) \<lparr>px = x2, py = y2\<rparr> radius =
     isCollidingWith rnd (c\<lparr>pos_x := x2, pos_y := y2\<rparr>) \<lparr>px = x1, py = y1\<rparr> radius"
    if "rounding_ok rnd"
    using distance_sym [OF that, of "\<lparr>px = x1, py = y1\<rparr>" "\<lparr>px = x2, py = y2\<rparr>"]
    by (simp add: isCollidingWith_distance getPosition_def)
  have e50: "isCollidingWith exact (c\<lparr>pos_x := Fin 0, pos_y := Fin 0\<rparr>)
      \<lparr>px = Fin 50, py = Fin 0\<rparr> None"
    by (simp add: isCollidingWith_def jsub_def exact_def Let_def sqrt_2500)
  have e70: "\<not> isCollidingWith exact (c\<lparr>pos_x := Fin 0, pos_y := Fin 0\<rparr>)
      \<lparr>px = Fin 70, py = Fin 0\<rparr> None"
    by (simp add: isCollidingWith_def jsub_def exact_def Let_def sqrt_4900)
  have b50: "isCollidingWith binary64 (c\<lparr>pos_x := Fin 0, pos_y := Fin 0\<rparr>)
      \<lparr>px = Fin 50, py = Fin 0\<rparr> None"
    by (simp add: isCollidingWith_def jsub_def Let_def sqrt_2500
        binary64_0 binary64_minus_50 binary64_2500 binary64_50 binary64_64)
  have b70: "\<not> isCollidingWith binary64 (c\<lparr>pos_x := Fin 0, pos_y := Fin 0\<rparr>)
      \<lparr>px = Fin 70, py = Fin 0\<rparr> None"
    by (simp add: isCollidingWith_def jsub_def Let_def sqrt_4900
        binary64_0 binary64_minus_70 binary64_4900 binary64_70 binary64_64)
  have tol: "moderate (ax - ox) \<and> moderate (ay - oy) \<and> moderate r \<longrightarrow>
      (sqrt ((ax - ox)\<^sup>2 + (ay - oy)\<^sup>2) < r * 2 * (1 - 1 / 10 ^ 15) \<longrightarrow>
         isCollidingWith binary64 (c\<lparr>pos_x := Fin ax, pos_y := Fin ay\<rparr>)
           \<lparr>px = Fin ox, py = Fin oy\<rparr> (Some (Fin r))) \<and>
      (r * 2 * (1 + 1 / 10 ^ 15) \<le> sqrt ((ax - ox)\<^sup>2 + (ay - oy)\<^sup>2) \<longrightarrow>
         \<not> isCollidingWith binary64 (c\<lparr>pos_x := Fin ax, pos_y := Fin ay\<rparr>)
             \<lparr>px = Fin ox, py = Fin oy\<rparr> (Some (Fin r)))"
    using isCollidingWith_binary64_tolerance [of ax ox ay oy r c] by blast
  have dflt: "isCollidingWith rnd c other None \<longleftrightarrow>
      isCollidingWith rnd c other (Some (Fin 32))"
    by (simp add: isCollidingWith_def)
  show ?thesis
    using isCollidingWith_distance [of rnd c other radius] dflt eu dist sym e50 e70 b50 b70 tol
      rounding_ok_exact rounding_ok_binary64
    by blast
qed

theorem isCollidingWith_iff_distance_witness:
  "isCollidingWith binary64 (outside_left\<lparr>pos_x := Fin 50, pos_y := Fin 0\<rparr>)
     \<lparr>px = Fin 0, py = Fin 0\<rparr> None \<and>
   \<not> isCollidingWith binary64 (outside_left\<lparr>pos_x := Fin 70, pos_y := Fin 0\<rparr>)
     \<lparr>px = Fin 0, py = Fin 0\<rparr> None \<and>
   isCollidingWith binary64 (outside_left\<lparr>pos_x := Fin 50, pos_y := Fin 0\<rparr>)
     \<lparr>px = Fin 0, py = Fin 0\<rparr> (Some (Fin 32)) \<and>
   \<not> isCollidingWith binary64 (outside_left\<lparr>pos_x := Fin 70, pos_y := Fin 0\<rparr>)
     \<lparr>px = Fin 0, py = Fin 0\<rparr> (Some (Fin 32))"
proof -
  note near = isCollidingWith_iff_distance
    [where rnd = binary64 and c = outside_left and radius = None
       and other = "\<lparr>px = Fin 0, py = Fin 0\<rparr>" and ax = 50 and ay = 0 and ox = 0 and oy = 0
       and r = 32 and ?x1.0 = "Fin 0" and ?y1.0 = "Fin 0" and ?x2.0 = "Fin 50" and ?y2.0 = "Fin 0"]
  note far = isCollidingWith_iff_distance
    [where rnd = binary64 and c = outside_left and radius = None
       and other = "\<lparr>px = Fin 0, py = Fin 0\<rparr>" and ax = 70 and ay = 0 and ox = 0 and oy = 0
       and r = 32 and ?x1.0 = "Fin 0" and ?y1.0 = "Fin 0" and ?x2.0 = "Fin 70" and ?y2.0 = "Fin 0"]
  have m: "moderate (50 - 0)" "moderate (70 - 0)" "moderate (0 - 0)" "moderate 32"
    by (simp_all add: moderate_def)
  have below: "sqrt ((50 - 0)\<^sup>2 + (0 - 0)\<^sup>2) < 32 * 2 * (1 - 1 / 10 ^ 15)"
    by (simp add: sqrt_2500)
  have above: "32 * 2 * (1 + 1 / 10 ^ 15) \<le> sqrt ((70 - 0)\<^sup>2 + (0 - 0)\<^sup>2)"
    by (simp add: sqrt_4900)
  have a: "isCollidingWith binary64 (outside_left\<lparr>pos_x := Fin 50, pos_y := Fin 0\<rparr>)
     \<lparr>px = Fin 0, py = Fin 0\<rparr> None"
    using near by blast
  have b: "\<not> isCollidingWith binary64 (outside_left\<lparr>pos_x := Fin 70, pos_y := Fin 0\<rparr>)
     \<lparr>px = Fin 0, py = Fin 0\<rparr> None"
    using far by blast
  have c: "isCollidingWith binary64 (outside_left\<lparr>pos_x := Fin 50, pos_y := Fin 0\<rparr>)
     \<lparr>px = Fin 0, py = Fin 0\<rparr> (Some (Fin 32))"
    using near m below by blast
  have d: "\<not> isCollidingWith binary64 (outside_left\<lparr>pos_x := Fin 70, pos_y := Fin 0\<rparr>)
     \<lparr>px = Fin 0, py = Fin 0\<rparr> (Some (Fin 32))"
    using far m above by blast
  show ?thesis
    using a b c d by blast
qed

text \<open>
  C5 as stated fails in the double-precision arithmetic of the language, at the
  threshold and where a square underflows. The character at
  \<open>(64 - 2 powi (-47), 2 powi (-20) - 2 powi (-73))\<close> is nearer to the origin than
  \<open>32 * 2 = 64\<close>, but the sum of the two rounded squares rounds to 4096, the computed
  distance is 64 and \<open>isCollidingWith\<close> is false. The character at
  \<open>(2 powi (-600), 0)\<close> is farther from the origin than twice the radius
  \<open>2 powi (-900)\<close>, but the square of its \<open>x\<close> rounds to 0, the computed distance is 0
  and \<open>isCollidingWith\<close> is true.
\<close>

theorem isCollidingWith_rounds_at_threshold:
  "stored binary64 (pos_x grazing) \<and> stored binary64 (pos_y grazing) \<and>
   getPosition grazing = \<lparr>px = Fin (64 - 1 / 2 ^ 47), py = Fin (1 / 2 ^ 20 - 1 / 2 ^ 73)\<rparr> \<and>
   jlt (distance exact (getPosition grazing) \<lparr>px = Fin 0, py = Fin 0\<rparr>) (Fin (32 * 2)) \<and>
   isCollidingWith exact grazing \<lparr>px = Fin 0, py = Fin 0\<rparr> None \<and>
   distance binary64 (getPosition grazing) \<lparr>px = Fin 0, py = Fin 0\<rparr> = Fin 64 \<and>
   \<not> isCollidingWith binary64 grazing \<lparr>px = Fin 0, py = Fin 0\<rparr> None \<and>
   stored binary64 (pos_x speck) \<and> stored binary64 (Fin (1 / 2 ^ 900)) \<and>
   getPosition speck = \<lparr>px = Fin (1 / 2 ^ 600), py = Fin 0\<rparr> \<and>
   \<not> jlt (distance exact (getPosition speck) \<lparr>px = Fin 0, py = Fin 0\<rparr>) (Fin (1 / 2 ^ 900 * 2)) \<and>
   \<not> isCollidingWith exact speck \<lparr>px = Fin 0, py = Fin 0\<rparr> (Some (Fin (1 / 2 ^ 900))) \<and>
   distance binary64 (getPosition speck) \<lparr>px = Fin 0, py = Fin 0\<rparr> = Fin 0 \<and>
   isCollidingWith binary64 speck \<lparr>px = Fin 0, py = Fin 0\<rparr> (Some (Fin (1 / 2 ^ 900)))"
proof -
  have g: "pos_x grazing = Fin (64 - 1 / 2 ^ 47)" "pos_y grazing = Fin (1 / 2 ^ 20 - 1 / 2 ^ 73)"
    by (simp_all add: grazing_def constructor_def)
  have s: "pos_x speck = Fin (1 / 2 ^ 600)" "pos_y speck = Fin 0"
    by (simp_all add: speck_def constructor_def)
  have st: "stored binary64 (pos_x grazing)" "stored binary64 (pos_y grazing)"
    "stored binary64 (pos_x speck)" "stored binary64 (Fin (1 / 2 ^ 900))"
    unfolding g s using binary64_below_64 binary64_below_2_20 binary64_2_600 binary64_2_900
    by simp_all
  have gp: "getPosition grazing = \<lparr>px = Fin (64 - 1 / 2 ^ 47), py = Fin (1 / 2 ^ 20 - 1 / 2 ^ 73)\<rparr>"
    "getPosition speck = \<lparr>px = Fin (1 / 2 ^ 600), py = Fin 0\<rparr>"
    by (simp_all add: getPosition_def g s)
  have below: "sqrt ((64 - 1 / 2 ^ 47) * (64 - 1 / 2 ^ 47) +
      (1 / 2 ^ 20 - 1 / 2 ^ 73) * (1 / 2 ^ 20 - 1 / 2 ^ 73)) < 64"
    by (rule real_less_lsqrt) (simp_all add: power2_eq_square)
  have d1: "jlt (distance exact (getPosition grazing) \<lparr>px = Fin 0, py = Fin 0\<rparr>) (Fin (32 * 2))"
    unfolding gp using below by (simp add: distance_def magnitude_def jsub_def exact_def)
  have e1: "isCollidingWith exact grazing \<lparr>px = Fin 0, py = Fin 0\<rparr> None"
    using d1 by (simp add: isCollidingWith_distance exact_def)
  have dist: "distance binary64 (getPosition grazing) \<lparr>px = Fin 0, py = Fin 0\<rparr> = Fin 64"
    unfolding gp distance_def magnitude_def jsub_def
    using binary64_below_64 binary64_below_2_20 binary64_below_64_squared
      binary64_below_2_20_squared binary64_sum_to_4096
    by (simp add: sqrt_4096 binary64_64)
  have b1: "\<not> isCollidingWith binary64 grazing \<lparr>px = Fin 0, py = Fin 0\<rparr> None"
    unfolding isCollidingWith_distance dist by (simp add: binary64_64)
  have d2: "\<not> jlt (distance exact (getPosition speck) \<lparr>px = Fin 0, py = Fin 0\<rparr>)
      (Fin (1 / 2 ^ 900 * 2))"
    unfolding gp using sqrt_2_1200 by (simp add: distance_def magnitude_def jsub_def exact_def)
  have e2: "\<not> isCollidingWith exact speck \<lparr>px = Fin 0, py = Fin 0\<rparr> (Some (Fin (1 / 2 ^ 900)))"
    using d2 by (simp add: isCollidingWith_distance exact_def)
  have dist2: "distance binary64 (getPosition speck) \<lparr>px = Fin 0, py = Fin 0\<rparr> = Fin 0"
    unfolding gp distance_def magnitude_def jsub_def
    using binary64_2_600 binary64_2_600_squared
    by (simp add: binary64_0)
  have b2: "isCollidingWith binary64 speck \<lparr>px = Fin 0, py = Fin 0\<rparr> (Some (Fin (1 / 2 ^ 900)))"
    unfolding isCollidingWith_distance dist2 using binary64_2_899 by simp
  show ?thesis
    using st gp d1 e1 dist b1 d2 e2 dist2 b2 by blast
qed

text \<open>
  C6. After \<open>setSpeed(newSpeed)\<close> the stored speed is the larger of 0 and \<open>newSpeed\<close>:
  for a finite \<open>r\<close> it is \<open>max 0 r\<close>, and for every number \<open>newSpeed\<close> (finite or
  infinite; \<open>NaN\<close>, which \<open>Math.max\<close> hands on, is not one) it is 0 when \<open>newSpeed\<close> is
  negative, \<open>newSpeed\<close> otherwise, and so at least 0. Nothing is rejected.
\<close>

theorem setSpeed_clamps_to_zero:
  "speed (setSpeed c (Fin r)) = Fin (max 0 r) \<and>
   (newSpeed \<noteq> NaN \<longrightarrow>
      jle (Fin 0) (speed (setSpeed c newSpeed)) \<and>
      (jlt newSpeed (Fin 0) \<longrightarrow> speed (setSpeed c newSpeed) = Fin 0) \<and>
      (jle (Fin 0) newSpeed \<longrightarrow> speed (setSpeed c newSpeed) = newSpeed))"
  by (cases newSpeed) (auto simp: setSpeed_def)

theorem setSpeed_clamps_to_zero_witness:
  "speed (setSpeed outside_left (Fin (- 3))) = Fin 0 \<and>
   jle (Fin 0) (speed (setSpeed outside_left (Fin (- 3)))) \<and>
   speed (setSpeed outside_left (Fin 7)) = Fin 7"
proof -
  have n: "Fin (- 3) \<noteq> NaN" "Fin 7 \<noteq> NaN"
    by simp_all
  show ?thesis
    using setSpeed_clamps_to_zero [of outside_left "- 3" "Fin (- 3)"]
      setSpeed_clamps_to_zero [of outside_left 7 "Fin 7"] n
    by simp
qed

text \<open>
  C7. Under every rounding, a side of an axis whose bound is infinite never clamps: with
  \<open>minX = -Infinity\<close> only the upper bound acts on the candidate, so the new \<open>x\<close> is
  the candidate whenever the candidate is at most \<open>maxX\<close>; with \<open>maxX = Infinity\<close> only
  the lower bound acts, so the new \<open>x\<close> is the candidate whenever it is at least
  \<open>minX\<close>; likewise for \<open>y\<close>. With the unbounded boundary, which is the one the
  constructor installs when none is given, the new position is the candidate itself.
  In exact arithmetic the candidate of finite values is position plus direction times
  speed times \<open>deltaTime / 1000\<close>.
\<close>

theorem unbounded_side_never_clamps:
  "(minX (boundary c) = NegInf \<longrightarrow>
      pos_x (update rnd c t) = jmin (maxX (boundary c)) (px (candidate rnd c t)) \<and>
      (jle (px (candidate rnd c t)) (maxX (boundary c)) \<longrightarrow>
         pos_x (update rnd c t) = px (candidate rnd c t))) \<and>
   (maxX (boundary c) = PosInf \<longrightarrow>
      pos_x (update rnd c t) = jmax (minX (boundary c)) (px (candidate rnd c t)) \<and>
      (jle (minX (boundary c)) (px (candidate rnd c t)) \<longrightarrow>
         pos_x (update rnd c t) = px (candidate rnd c t))) \<and>
   (minY (boundary c) = NegInf \<longrightarrow>
      pos_y (update rnd c t) = jmin (maxY (boundary c)) (py (candidate rnd c t)) \<and>
      (jle (py (candidate rnd c t)) (maxY (boundary c)) \<longrightarrow>
         pos_y (update rnd c t) = py (candidate rnd c t))) \<and>
   (maxY (boundary c) = PosInf \<longrightarrow>
      pos_y (update rnd c t) = jmax (minY (boundary c)) (py (candidate rnd c t)) \<and>
      (jle (minY (boundary c)) (py (candidate rnd c t)) \<longrightarrow>
         pos_y (update rnd c t) = py (candidate rnd c t))) \<and>
   (boundary c = unbounded \<longrightarrow> getPosition (update rnd c t) = candidate rnd c t) \<and>
   boundary (constructor startX startY speed0 None) = unbounded \<and>
   candidate exact
     \<lparr>pos_x = Fin x, pos_y = Fin y, speed = Fin s,
      direction = \<lparr>px = Fin dx, py = Fin dy\<rparr>, boundary = b\<rparr> (Fin dt) =
     \<lparr>px = Fin (x + dx * s * (dt / 1000)), py = Fin (y + dy * s * (dt / 1000))\<rparr>"
  by (simp add: update_def candidate_def getPosition_def constructor_def unbounded_def Let_def
      exact_def jmax_NegInf jmin_PosInf jmin_le jmax_le)

theorem unbounded_side_never_clamps_witness:
  "pos_x (update exact
      \<lparr>pos_x = Fin 790, pos_y = Fin 3, speed = Fin 100,
       direction = \<lparr>px = Fin (- 1), py = Fin (- 1)\<rparr>,
       boundary = \<lparr>minX = NegInf, maxX = Fin 800, minY = Fin 0, maxY = PosInf\<rparr>\<rparr> (Fin 10000)) =
     Fin (- 210) \<and>
   pos_y (update exact
      \<lparr>pos_x = Fin 790, pos_y = Fin 3, speed = Fin 100,
       direction = \<lparr>px = Fin (- 1), py = Fin (- 1)\<rparr>,
       boundary = \<lparr>minX = NegInf, maxX = Fin 800, minY = Fin 0, maxY = PosInf\<rparr>\<rparr> (Fin 10000)) =
     Fin 0 \<and>
   getPosition (update exact
      \<lparr>pos_x = Fin 790, pos_y = Fin 3, speed = Fin 100,
       direction = \<lparr>px = Fin (- 1), py = Fin (- 1)\<rparr>, boundary = unbounded\<rparr> (Fin 10000)) =
     \<lparr>px = Fin (- 210), py = Fin (- 997)\<rparr>"
proof -
  let ?b = "\<lparr>minX = NegInf, maxX = Fin 800, minY = Fin 0, maxY = PosInf\<rparr>"
  let ?c = "\<lparr>pos_x = Fin 790, pos_y = Fin 3, speed = Fin 100,
             direction = \<lparr>px = Fin (- 1), py = Fin (- 1)\<rparr>, boundary = ?b\<rparr>"
  let ?u = "\<lparr>pos_x = Fin 790, pos_y = Fin 3, speed = Fin 100,
             direction = \<lparr>px = Fin (- 1), py = Fin (- 1)\<rparr>, boundary = unbounded\<rparr>"
  have c: "candidate exact ?c (Fin 10000) = \<lparr>px = Fin (- 210), py = Fin (- 997)\<rparr>"
    "candidate exact ?u (Fin 10000) = \<lparr>px = Fin (- 210), py = Fin (- 997)\<rparr>"
    by (simp_all add: candidate_def exact_def)
  show ?thesis
    using unbounded_side_never_clamps [of ?c exact "Fin 10000"]
      unbounded_side_never_clamps [of ?u exact "Fin 10000"] c
    by simp
qed

text \<open>
  C8. A character starts at \<open>(0, 0)\<close> with speed 10 and no boundary. After
  \<open>setDirection(1, 1)\<close> each component of the stored direction is \<open>1 / sqrt 2\<close> in exact
  arithmetic and \<open>0.7071067811865475\<close> in double precision, within \<open>10\<^sup>-\<^sup>1\<^sup>5\<close> of
  \<open>1 / sqrt 2\<close>; both are within \<open>10\<^sup>-\<^sup>4\<close> of 0.7071. After \<open>update(1000)\<close> each
  coordinate is within \<open>10\<^sup>-\<^sup>3\<close> of 7.071, and the distance covered is 10 in exact
  arithmetic and within \<open>10\<^sup>-\<^sup>1\<^sup>2\<close> of 10 in double precision: the distance that
  \<open>setDirection(1, 0)\<close> covers along the axis, which ends at \<open>(10, 0)\<close>.
\<close>

theorem diagonal_speed_example:
  "direction (diagonal_example exact) = \<lparr>px = Fin (1 / sqrt 2), py = Fin (1 / sqrt 2)\<rparr> \<and>
   near (1 / 10 ^ 4) (px (direction (diagonal_example exact))) (7071 / 10000) \<and>
   near (1 / 10 ^ 4) (py (direction (diagonal_example exact))) (7071 / 10000) \<and>
   near (1 / 10 ^ 3) (pos_x (diagonal_example exact)) (7071 / 1000) \<and>
   near (1 / 10 ^ 3) (pos_y (diagonal_example exact)) (7071 / 1000) \<and>
   magnitude exact (getPosition (diagonal_example exact)) = Fin 10 \<and>
   getPosition (axial_example exact) = \<lparr>px = Fin 10, py = Fin 0\<rparr> \<and>
   direction (diagonal_example binary64) =
     \<lparr>px = Fin (6369051672525772 / 2 ^ 53), py = Fin (6369051672525772 / 2 ^ 53)\<rparr> \<and>
   near (1 / 10 ^ 15) (px (direction (diagonal_example binary64))) (1 / sqrt 2) \<and>
   near (1 / 10 ^ 15) (py (direction (diagonal_example binary64))) (1 / sqrt 2) \<and>
   near (1 / 10 ^ 4) (px (direction (diagonal_example binary64))) (7071 / 10000) \<and>
   near (1 / 10 ^ 4) (py (direction (diagonal_example binary64))) (7071 / 10000) \<and>
   near (1 / 10 ^ 3) (pos_x (diagonal_example binary64)) (7071 / 1000) \<and>
   near (1 / 10 ^ 3) (pos_y (diagonal_example binary64)) (7071 / 1000) \<and>
   near (1 / 10 ^ 12) (magnitude exact (getPosition (diagonal_example binary64))) 10 \<and>
   getPosition (axial_example binary64) = \<lparr>px = Fin 10, py = Fin 0\<rparr>"
proof -
  note e = diagonal_example_exact
  note b = diagonal_example_binary64
  have ex: "pos_x (diagonal_example exact) = Fin (5 * sqrt 2)"
    "pos_y (diagonal_example exact) = Fin (5 * sqrt 2)"
    using e by (simp_all add: getPosition_def)
  have bx: "pos_x (diagonal_example binary64) = Fin (7961314590657215 / 2 ^ 50)"
    "pos_y (diagonal_example binary64) = Fin (7961314590657215 / 2 ^ 50)"
    using b by (simp_all add: getPosition_def)
  have e1: "direction (diagonal_example exact) = \<lparr>px = Fin (1 / sqrt 2), py = Fin (1 / sqrt 2)\<rparr>"
    using e by (simp add: inv_sqrt_2)
  have e2: "near (1 / 10 ^ 4) (Fin (sqrt 2 / 2)) (7071 / 10000)"
    using sqrt_2_bounds by (simp add: abs_less_iff)
  have e3: "near (1 / 10 ^ 3) (Fin (5 * sqrt 2)) (7071 / 1000)"
    using sqrt_2_bounds by (simp add: abs_less_iff)
  have "5 * sqrt 2 * (5 * sqrt 2) + 5 * sqrt 2 * (5 * sqrt 2) = 10\<^sup>2"
    by simp
  then have "sqrt (5 * sqrt 2 * (5 * sqrt 2) + 5 * sqrt 2 * (5 * sqrt 2)) = 10"
    by (simp only: real_sqrt_abs)
  then have e4: "magnitude exact (getPosition (diagonal_example exact)) = Fin 10"
    using e by (simp add: magnitude_def exact_def)
  have e5: "getPosition (axial_example exact) = \<lparr>px = Fin 10, py = Fin 0\<rparr>"
    by (simp add: axial_example_def update_def setDirection_def constructor_def unbounded_def
        getPosition_def exact_def Let_def)
  have tight: "2 * (6369051672525772 / 2 ^ 53 - 1 / 10 ^ 15) < sqrt 2 \<and>
      sqrt 2 < 2 * (6369051672525772 / 2 ^ 53 + 1 / 10 ^ 15)"
    by (rule sqrt_between) (simp_all add: power2_eq_square)
  have half: "\<bar>d - s / 2\<bar> < tol" if "2 * (d - tol) < s \<and> s < 2 * (d + tol)"
    for d s tol :: real
  proof -
    from that have "2 * (d - tol) < s" and "s < 2 * (d + tol)"
      by simp_all
    then show ?thesis
      by (simp add: abs_less_iff algebra_simps)
  qed
  have "\<bar>6369051672525772 / 2 ^ 53 - sqrt 2 / 2\<bar> < 1 / 10 ^ 15"
    by (rule half [OF tight])
  then have b1: "near (1 / 10 ^ 15) (Fin (6369051672525772 / 2 ^ 53)) (1 / sqrt 2)"
    by (simp only: near.simps inv_sqrt_2)
  have b2: "near (1 / 10 ^ 4) (Fin (6369051672525772 / 2 ^ 53)) (7071 / 10000)"
    by (simp add: abs_less_iff)
  have b3: "near (1 / 10 ^ 3) (Fin (7961314590657215 / 2 ^ 50)) (7071 / 1000)"
    by (simp add: abs_less_iff)
  have far: "10 - 1 / 10 ^ 12 <
        sqrt (7961314590657215 / 2 ^ 50 * (7961314590657215 / 2 ^ 50) +
              7961314590657215 / 2 ^ 50 * (7961314590657215 / 2 ^ 50)) \<and>
      sqrt (7961314590657215 / 2 ^ 50 * (7961314590657215 / 2 ^ 50) +
            7961314590657215 / 2 ^ 50 * (7961314590657215 / 2 ^ 50)) < 10 + 1 / 10 ^ 12"
    by (rule sqrt_between) (simp_all add: power2_eq_square)
  have b4: "near (1 / 10 ^ 12) (magnitude exact (getPosition (diagonal_example binary64))) 10"
    unfolding conjunct2 [OF b] using far
    by (simp add: magnitude_def exact_def) argo
  have b5: "getPosition (axial_example binary64) = \<lparr>px = Fin 10, py = Fin 0\<rparr>"
    by (simp add: axial_example_def update_def setDirection_def constructor_def unbounded_def
        getPosition_def Let_def binary64_0 binary64_1 binary64_10)
  show ?thesis
    unfolding ex bx e1 conjunct1 [OF b]
    using e1 e2 e3 e4 e5 b1 b2 b3 b4 b5
    by (simp only: point.simps inv_sqrt_2 simp_thms)
qed

text \<open>
  C9. The two copies of \<open>update\<close> are not equivalent. From the same state (at the origin,
  speed 10, no boundary, direction \<open>(1, 0)\<close> set by the \<open>setDirection(1, 0)\<close> of either
  class) the copy of src/src/Character.js, called with 500 ms, ends at \<open>(5, 0)\<close>, which is
  what the contract of the specification gives, and the copy of src/unnamed/part_000,
  which takes no elapsed time, ends at \<open>(10, 0)\<close>, in exact and in double-precision
  arithmetic; the latter class also stores the direction \<open>(1, 1)\<close> as it is, with the
  magnitude \<open>sqrt 2\<close>. Under every rounding the copy of src/src/Character.js returns
  what the contract of the specification gives, for every boundary with
  \<open>minX <= maxX\<close> and \<open>minY <= maxY\<close>.
\<close>

theorem update_variants_differ:
  "heading_right exact = heading_right_part_000 \<and>
   heading_right binary64 = heading_right_part_000 \<and>
   getPosition (update exact heading_right_part_000 (Fin 500)) = \<lparr>px = Fin 5, py = Fin 0\<rparr> \<and>
   getPosition (update binary64 heading_right_part_000 (Fin 500)) = \<lparr>px = Fin 5, py = Fin 0\<rparr> \<and>
   getPosition (update_part_000 exact heading_right_part_000) = \<lparr>px = Fin 10, py = Fin 0\<rparr> \<and>
   getPosition (update_part_000 binary64 heading_right_part_000) = \<lparr>px = Fin 10, py = Fin 0\<rparr> \<and>
   spec_update exact (getPosition heading_right_part_000) (direction heading_right_part_000)
     (speed heading_right_part_000) (Fin 500) (boundary heading_right_part_000) =
     \<lparr>px = Fin 5, py = Fin 0\<rparr> \<and>
   spec_update binary64 (getPosition heading_right_part_000) (direction heading_right_part_000)
     (speed heading_right_part_000) (Fin 500) (boundary heading_right_part_000) =
     \<lparr>px = Fin 5, py = Fin 0\<rparr> \<and>
   magnitude exact (direction (setDirection_part_000 c (Fin 1) (Fin 1))) = Fin (sqrt 2) \<and>
   (jle (minX (boundary c)) (maxX (boundary c)) \<and>
    jle (minY (boundary c)) (maxY (boundary c)) \<longrightarrow>
    getPosition (update rnd c t) =
      spec_update rnd (getPosition c) (direction c) (speed c) t (boundary c))"
proof -
  have h: "heading_right_part_000 =
      \<lparr>pos_x = Fin 0, pos_y = Fin 0, speed = Fin 10,
       direction = \<lparr>px = Fin 1, py = Fin 0\<rparr>, boundary = unbounded\<rparr>"
    by (simp add: heading_right_part_000_def setDirection_part_000_def constructor_def)
  have s1: "heading_right exact = heading_right_part_000"
    unfolding h
    by (simp add: heading_right_def setDirection_def constructor_def exact_def Let_def)
  have s2: "heading_right binary64 = heading_right_part_000"
    unfolding h
    by (simp add: heading_right_def setDirection_def constructor_def Let_def
        binary64_0 binary64_1)
  have u1: "getPosition (update exact heading_right_part_000 (Fin 500)) =
      \<lparr>px = Fin 5, py = Fin 0\<rparr>"
    unfolding h by (simp add: update_def unbounded_def getPosition_def exact_def Let_def)
  have u2: "getPosition (update binary64 heading_right_part_000 (Fin 500)) =
      \<lparr>px = Fin 5, py = Fin 0\<rparr>"
    unfolding h
    by (simp add: update_def unbounded_def getPosition_def Let_def
        binary64_0 binary64_10 binary64_half binary64_5)
  have p1: "getPosition (update_part_000 exact heading_right_part_000) =
      \<lparr>px = Fin 10, py = Fin 0\<rparr>"
    unfolding h by (simp add: update_part_000_def unbounded_def getPosition_def exact_def Let_def)
  have p2: "getPosition (update_part_000 binary64 heading_right_part_000) =
      \<lparr>px = Fin 10, py = Fin 0\<rparr>"
    unfolding h
    by (simp add: update_part_000_def unbounded_def getPosition_def Let_def binary64_10)
  have sp: "spec_update exact (getPosition heading_right_part_000)
     (direction heading_right_part_000) (speed heading_right_part_000) (Fin 500)
     (boundary heading_right_part_000) = \<lparr>px = Fin 5, py = Fin 0\<rparr>"
    unfolding h
    by (simp add: spec_update_def spec_clamp_def unbounded_def getPosition_def exact_def Let_def)
  have sb: "spec_update binary64 (getPosition heading_right_part_000)
     (direction heading_right_part_000) (speed heading_right_part_000) (Fin 500)
     (boundary heading_right_part_000) = \<lparr>px = Fin 5, py = Fin 0\<rparr>"
    unfolding h
    by (simp add: spec_update_def spec_clamp_def unbounded_def getPosition_def Let_def
        binary64_0 binary64_10 binary64_half binary64_5)
  have raw: "magnitude exact (direction (setDirection_part_000 c (Fin 1) (Fin 1))) = Fin (sqrt 2)"
    by (simp add: setDirection_part_000_def magnitude_def exact_def)
  show ?thesis
    using s1 s2 u1 u2 p1 p2 sp sb raw update_meets_contract [of c rnd t] by blast
qed

theorem update_variants_differ_witness:
  "getPosition (update binary64 (heading_right binary64) (Fin 500)) =
     spec_update binary64 (getPosition (heading_right binary64))
       (direction (heading_right binary64)) (speed (heading_right binary64)) (Fin 500)
       (boundary (heading_right binary64)) \<and>
   getPosition (update binary64 (heading_right binary64) (Fin 500)) \<noteq>
     getPosition (update_part_000 binary64 (heading_right binary64))"
proof -
  let ?c = "heading_right binary64"
  note all = update_variants_differ [of ?c binary64 "Fin 500"]
  have c: "?c = \<lparr>pos_x = Fin 0, pos_y = Fin 0, speed = Fin 10,
       direction = \<lparr>px = Fin 1, py = Fin 0\<rparr>, boundary = unbounded\<rparr>"
    by (simp add: heading_right_def setDirection_def constructor_def Let_def
        binary64_0 binary64_1)
  have pre: "jle (minX (boundary ?c)) (maxX (boundary ?c)) \<and>
    jle (minY (boundary ?c)) (maxY (boundary ?c))"
    unfolding c by (simp add: unbounded_def)
  have "getPosition (update binary64 ?c (Fin 500)) =
     spec_update binary64 (getPosition ?c) (direction ?c) (speed ?c) (Fin 500) (boundary ?c)"
    using all pre by blast
  moreover have "getPosition (update binary64 ?c (Fin 500)) \<noteq>
     getPosition (update_part_000 binary64 ?c)"
    using all by simp
  ultimately show ?thesis by simp
qed

text \<open>
  C10. Under every rounding, \<open>update\<close> leaves the speed, the direction and the
  boundary as they are, \<open>setDirection\<close> leaves the position, the speed and the
  boundary as they are, and \<open>setSpeed\<close> leaves the position, the direction and the
  boundary as they are: only \<open>update\<close> writes the position.
\<close>

theorem update_frame:
  "speed (update rnd c deltaTime) = speed c \<and>
   direction (update rnd c deltaTime) = direction c \<and>
   boundary (update rnd c deltaTime) = boundary c \<and>
   pos_x (setDirection rnd c dx dy) = pos_x c \<and>
   pos_y (setDirection rnd c dx dy) = pos_y c \<and>
   speed (setDirection rnd c dx dy) = speed c \<and>
   boundary (setDirection rnd c dx dy) = boundary c \<and>
   pos_x (setSpeed c newSpeed) = pos_x c \<and>
   pos_y (setSpeed c newSpeed) = pos_y c \<and>
   direction (setSpeed c newSpeed) = direction c \<and>
   boundary (setSpeed c newSpeed) = boundary c"
  by (simp add: update_def setDirection_def setSpeed_def Let_def)

end
